(* ===== verification/Prelude.thy ===== *)
theory Prelude
  imports
    Main
    "HOL-Library.Word"
    "HOL-Library.Multiset"
    "HOL-Library.List_Lexorder"
    "HOL-Library.Char_ord"
    "HOL-Library.Sublist"
    "HOL-Library.Product_Lexorder"
begin

text \<open>
  Shared vocabulary of the development: the types that name the program's data
  (bytes, file names, paths), the outcome type that stands for Rust's
  \<open>Result\<close> together with an unwinding panic, and generic lemmas on the
  lexicographic order of strings (Rust's \<open>Ord\<close> on \<open>OsStr\<close>, \<open>str\<close>
  and byte slices) that the component theories use.
\<close>

type_synonym byte = "8 word"
type_synonym name = string
type_synonym path = "name list"

text \<open>
  A Rust call either returns \<open>Ok\<close>, returns an \<open>Err\<close>, or panics
  (\<open>expect\<close>, \<open>unwrap\<close>); the panic carries its message.
\<close>

datatype ('a, 'e) outcome = Ok 'a | Err 'e | Panic string

text \<open>
  Rust's \<open>?\<close> on a state-passing computation: continue with the value of an
  \<open>Ok\<close>, stop with the error or the panic and keep the state reached.
\<close>

definition bind_out ::
  "('a, 'e) outcome \<times> 's \<Rightarrow> ('a \<Rightarrow> 's \<Rightarrow> ('b, 'e) outcome \<times> 's) \<Rightarrow> ('b, 'e) outcome \<times> 's" where
  "bind_out r f = (case r of (Ok a, s) \<Rightarrow> f a s | (Err e, s) \<Rightarrow> (Err e, s) | (Panic m, s) \<Rightarrow> (Panic m, s))"

text \<open>\<open>slice::get\<close>: the element at an index, \<open>None\<close> out of range.\<close>

definition nth_opt :: "'a list \<Rightarrow> nat \<Rightarrow> 'a option" where
  "nth_opt xs i = (if i < length xs then Some (xs ! i) else None)"

text \<open>Whether a call unwound; \<open>BufWriter\<close> records it in its \<open>panicked\<close> flag.\<close>

fun is_panic :: "('a, 'e) outcome \<Rightarrow> bool" where
  "is_panic (Panic m) = True"
| "is_panic (Ok a) = False"
| "is_panic (Err e) = False"

text \<open>\<open>str::as_bytes\<close>: a model string is a sequence of bytes.\<close>

definition bytes_of :: "string \<Rightarrow> byte list" where
  "bytes_of s = map of_char s"

named_theorems lex_simps "order facts on strings and tuples used by the components"

subsection \<open>Lexicographic order on lists\<close>

text \<open>
  \<open>List_Lexorder\<close> orders lists as Rust orders slices: element by element,
  a proper prefix first. The two facts below split a comparison at a common
  prefix and at pieces of equal length.
\<close>

lemma less_list_same_prefix [lex_simps]:
  fixes p xs ys :: "'a::linorder list"
  shows "(p @ xs < p @ ys) = (xs < ys)"
  by (induction p) auto

lemma less_list_append_same_length [lex_simps]:
  fixes xs ys us vs :: "'a::linorder list"
  assumes "length xs = length ys"
  shows "(xs @ us < ys @ vs) = (xs < ys \<or> xs = ys \<and> us < vs)"
  using assms
proof (induction xs arbitrary: ys)
  case Nil
  then show ?case by simp
next
  case (Cons x xs)
  then obtain y ys' where "ys = y # ys'" and "length xs = length ys'"
    by (cases ys) auto
  with Cons.IH show ?case by auto
qed

subsection \<open>Outcomes and lists\<close>

lemma bind_out_Ok [simp]: "bind_out (Ok a, s) f = f a s"
  and bind_out_Err [simp]: "bind_out (Err e, s) f = (Err e, s)"
  and bind_out_Panic [simp]: "bind_out (Panic m, s) f = (Panic m, s)"
  by (simp_all add: bind_out_def)

lemma nth_opt_less [simp]: "i < length xs \<Longrightarrow> nth_opt xs i = Some (xs ! i)"
  by (simp add: nth_opt_def)

lemma map_nth_upt_take: "k \<le> length xs \<Longrightarrow> map (\<lambda>i. f (xs ! i)) [0..<k] = map f (take k xs)"
  by (induction k) (auto simp: take_Suc_conv_app_nth)

lemma sorted_list_prefix_set:
  assumes "sorted xs" and "distinct xs" and x: "x \<in> set (take k xs)" and y: "y \<in> set (drop k xs)"
  shows "x < y"
proof -
  have "sorted (take k xs @ drop k xs)" and "distinct (take k xs @ drop k xs)"
    using assms(1,2) by simp_all
  then have "x \<le> y" and "x \<noteq> y"
    using x y unfolding sorted_append distinct_append by blast+
  then show ?thesis by simp
qed

lemma isl_map_sum [simp]: "isl (map_sum f g x) = isl x"
  by (cases x) simp_all

lemma map_sort_key: "map f (sort_key f xs) = sort (map f xs)"
  by (rule properties_for_sort [symmetric]) (simp_all add: mset_map)

lemma filter_map_fst_distinct:
  "distinct (map fst xs) \<Longrightarrow> distinct (map fst (filter P xs))"
  by (induction xs) auto

end
