(* ===== verification/Fs.thy ===== *)
theory Fs
  imports Prelude "HOL-Library.AList"
begin

text \<open>
  The file system as the writer sees it through \<open>std::fs\<close> (via \<open>fs_err\<close>)
  and \<open>walkdir\<close> on Linux. The file system is an association list from
  absolute paths (lists of names, the root is \<open>[]\<close>) to nodes; its order is
  the order in which \<open>readdir\<close> returns the entries. Each operation returns
  \<open>io_error + fs\<close>, with the error kinds of \<open>std::io::ErrorKind\<close> that
  Linux's error numbers map to, and checks its conditions in the kernel's order
  (parent lookup, existence, permission, immutability, kind).
  Permissions are those of the running (non-root) process: a directory is
  readable (list) and writable (create and delete entries); a regular file may be
  immutable (\<open>chattr +i\<close>: neither removable nor truncatable).
  Symbolic links, fifos and sockets are one kind of entry, \<open>Symlink\<close>, that is
  neither a regular file nor a directory; no operation follows a link.
\<close>

datatype io_error =
    NotFound | PermissionDenied | AlreadyExists | NotADirectory | IsADirectory
  | Uncategorized | Unsupported | Interrupted | WriteZero | StorageFull

datatype node =
    is_file: RegFile (contents: "byte list") (immutable: bool)
  | is_dir_node: Dir (readable: bool) (writable: bool)
  | Symlink

type_synonym fs = "(path \<times> node) list"

subsection \<open>Operations\<close>

text \<open>\<open>Path::is_dir\<close>: the path names a directory.\<close>

definition is_dir :: "fs \<Rightarrow> path \<Rightarrow> bool" where
  "is_dir fs p = (case map_of fs p of Some (Dir _ _) \<Rightarrow> True | _ \<Rightarrow> False)"

text \<open>\<open>mkdir(2)\<close> with mode 0777: the new directory is readable and writable.\<close>

definition mkdir :: "path \<Rightarrow> fs \<Rightarrow> io_error + fs" where
  "mkdir p fs =
     (case map_of fs (butlast p) of
        None \<Rightarrow> Inl NotFound
      | Some (Dir r w) \<Rightarrow>
          (if map_of fs p \<noteq> None then Inl AlreadyExists
           else if \<not> w then Inl PermissionDenied
           else Inr (AList.update p (Dir True True) fs))
      | Some _ \<Rightarrow> Inl NotADirectory)"

text \<open>
  \<open>std::fs::create_dir_all\<close> (\<open>DirBuilder::create_dir_all\<close>): try
  \<open>mkdir\<close>; on \<open>NotFound\<close> create the parent first and try again; any other
  failure is success when the path is a directory by then. The root has no
  parent: "failed to create whole tree".
\<close>

function create_dir_all :: "path \<Rightarrow> fs \<Rightarrow> io_error + fs" where
  "create_dir_all p fs =
     (case mkdir p fs of
        Inr fs' \<Rightarrow> Inr fs'
      | Inl e \<Rightarrow>
          (if e = NotFound then
             (if p = [] then Inl Uncategorized
              else (case create_dir_all (butlast p) fs of
                      Inl e' \<Rightarrow> Inl e'
                    | Inr fs' \<Rightarrow>
                        (case mkdir p fs' of
                           Inr fs'' \<Rightarrow> Inr fs''
                         | Inl e'' \<Rightarrow> if is_dir fs' p then Inr fs' else Inl e'')))
           else if is_dir fs p then Inr fs else Inl e))"
  by pat_completeness auto
termination
  by (relation "measure (\<lambda>(p, fs). length p)") auto

declare create_dir_all.simps [simp del]

text \<open>The entries directly below a directory, in the file system's order.\<close>

definition children :: "path \<Rightarrow> fs \<Rightarrow> (name \<times> node) list" where
  "children d fs = [(last p, n). (p, n) \<leftarrow> fs, p \<noteq> [] \<and> butlast p = d]"

text \<open>\<open>std::fs::read_dir\<close>, collected.\<close>

definition read_dir :: "path \<Rightarrow> fs \<Rightarrow> io_error + (name \<times> node) list" where
  "read_dir d fs =
     (case map_of fs d of
        None \<Rightarrow> Inl NotFound
      | Some (Dir r w) \<Rightarrow> if r then Inr (children d fs) else Inl PermissionDenied
      | Some _ \<Rightarrow> Inl NotADirectory)"

text \<open>\<open>std::fs::remove_file\<close>, i.e.\ \<open>unlink(2)\<close>.\<close>

definition remove_file :: "path \<Rightarrow> fs \<Rightarrow> io_error + fs" where
  "remove_file p fs =
     (case map_of fs (butlast p) of
        None \<Rightarrow> Inl NotFound
      | Some (Dir r w) \<Rightarrow>
          (case map_of fs p of
             None \<Rightarrow> Inl NotFound
           | Some n \<Rightarrow>
               if \<not> w then Inl PermissionDenied
               else (case n of
                       RegFile c imm \<Rightarrow> if imm then Inl PermissionDenied else Inr (AList.delete p fs)
                     | Dir _ _ \<Rightarrow> Inl IsADirectory
                     | Symlink \<Rightarrow> Inr (AList.delete p fs)))
      | Some _ \<Rightarrow> Inl NotADirectory)"

text \<open>
  \<open>std::fs::File::create\<close>: \<open>open(2)\<close> with \<open>O_WRONLY|O_CREAT|O_TRUNC\<close>.
  A missing file is created empty, an existing regular file is truncated. Opening
  an existing link or special file is not modelled (\<open>Unsupported\<close>).
\<close>

definition file_create :: "path \<Rightarrow> fs \<Rightarrow> io_error + fs" where
  "file_create p fs =
     (case map_of fs (butlast p) of
        None \<Rightarrow> Inl NotFound
      | Some (Dir r w) \<Rightarrow>
          (case map_of fs p of
             None \<Rightarrow> if w then Inr (AList.update p (RegFile [] False) fs) else Inl PermissionDenied
           | Some (RegFile c imm) \<Rightarrow>
               if imm then Inl PermissionDenied else Inr (AList.update p (RegFile [] False) fs)
           | Some (Dir _ _) \<Rightarrow> Inl IsADirectory
           | Some Symlink \<Rightarrow> Inl Unsupported)
      | Some _ \<Rightarrow> Inl NotADirectory)"

subsection \<open>Well-formed file systems\<close>

text \<open>
  Paths are keys at most once, the root is a directory, and every other entry
  lies in a directory.
\<close>

definition wf_fs :: "fs \<Rightarrow> bool" where
  "wf_fs fs \<longleftrightarrow>
     distinct (map fst fs) \<and> is_dir fs [] \<and>
     (\<forall>pn \<in> set fs. fst pn \<noteq> [] \<longrightarrow> is_dir fs (butlast (fst pn)))"

subsection \<open>Lemmas on the operations\<close>

lemma is_dir_Some: "is_dir fs p \<longleftrightarrow> (\<exists>r w. map_of fs p = Some (Dir r w))"
  by (auto simp: is_dir_def split: option.splits node.splits)

lemma wf_fs_parent:
  assumes "wf_fs fs" and "map_of fs p = Some n" and "p \<noteq> []"
  shows "is_dir fs (butlast p)"
  using assms map_of_SomeD unfolding wf_fs_def by fastforce

lemma wf_fs_root: "wf_fs fs \<Longrightarrow> \<exists>r w. map_of fs [] = Some (Dir r w)"
  unfolding wf_fs_def is_dir_Some by blast

lemma wf_fs_nondir_not_root:
  "wf_fs fs \<Longrightarrow> map_of fs p = Some n \<Longrightarrow> \<not> is_dir_node n \<Longrightarrow> p \<noteq> []"
  using wf_fs_root [of fs] by auto

lemma wf_fsI:
  assumes "distinct (map fst fs)" and "is_dir fs []"
    and "\<And>p n. map_of fs p = Some n \<Longrightarrow> p \<noteq> [] \<Longrightarrow> is_dir fs (butlast p)"
  shows "wf_fs fs"
  using assms unfolding wf_fs_def by (auto dest: weak_map_of_SomeI)

lemma wf_fs_update_new:
  assumes wf: "wf_fs fs" and new: "map_of fs p = None" and par: "is_dir fs (butlast p)"
  shows "wf_fs (AList.update p v fs)"
proof (rule wf_fsI)
  show "distinct (map fst (AList.update p v fs))"
    using wf by (simp add: wf_fs_def distinct_update)
  have "p \<noteq> []" using wf new by (auto dest: wf_fs_root)
  then show "is_dir (AList.update p v fs) []"
    using wf by (simp add: is_dir_def update_conv' wf_fs_def)
  fix q n assume q: "map_of (AList.update p v fs) q = Some n" "q \<noteq> []"
  show "is_dir (AList.update p v fs) (butlast q)"
  proof (cases "q = p")
    case True
    with par new show ?thesis by (auto simp: is_dir_def update_conv' split: option.splits)
  next
    case False
    with q have "map_of fs q = Some n" by (simp add: update_conv')
    from wf this q(2) have "is_dir fs (butlast q)" by (rule wf_fs_parent)
    with new show ?thesis by (auto simp: is_dir_def update_conv' split: option.splits)
  qed
qed

lemma wf_fs_update_nondir:
  assumes wf: "wf_fs fs" and old: "map_of fs p = Some n" and "\<not> is_dir_node n" and "\<not> is_dir_node v"
  shows "wf_fs (AList.update p v fs)"
proof (rule wf_fsI)
  show "distinct (map fst (AList.update p v fs))"
    using wf by (simp add: wf_fs_def distinct_update)
  have "p \<noteq> []" using wf old assms(3) by (rule wf_fs_nondir_not_root)
  then show "is_dir (AList.update p v fs) []"
    using wf by (simp add: is_dir_def update_conv' wf_fs_def)
  fix q m assume q: "map_of (AList.update p v fs) q = Some m" "q \<noteq> []"
  have par: "is_dir fs (butlast q)"
  proof (cases "q = p")
    case True with wf old q(2) show ?thesis by (simp add: wf_fs_parent)
  next
    case False with wf q show ?thesis by (simp add: update_conv' wf_fs_parent)
  qed
  then have "butlast q \<noteq> p" using old assms(3) by (cases n) (auto simp: is_dir_def)
  with par show "is_dir (AList.update p v fs) (butlast q)"
    by (simp add: is_dir_def update_conv')
qed

lemma wf_fs_delete_nondir:
  assumes wf: "wf_fs fs" and old: "map_of fs p = Some n" and nd: "\<not> is_dir_node n"
  shows "wf_fs (AList.delete p fs)"
proof (rule wf_fsI)
  show "distinct (map fst (AList.delete p fs))"
    using wf by (simp add: wf_fs_def distinct_delete)
  have "p \<noteq> []" using wf old nd by (rule wf_fs_nondir_not_root)
  then show "is_dir (AList.delete p fs) []"
    using wf by (simp add: is_dir_def delete_conv' wf_fs_def)
  fix q m assume q: "map_of (AList.delete p fs) q = Some m" "q \<noteq> []"
  then have "map_of fs q = Some m" by (simp add: delete_conv' split: if_splits)
  from wf this q(2) have par: "is_dir fs (butlast q)" by (rule wf_fs_parent)
  then have "butlast q \<noteq> p" using old nd by (cases n) (auto simp: is_dir_def)
  with par show "is_dir (AList.delete p fs) (butlast q)"
    by (simp add: is_dir_def delete_conv')
qed

lemma mkdir_Inr:
  "mkdir p fs = Inr fs' \<Longrightarrow>
     map_of fs p = None \<and> is_dir fs (butlast p) \<and> fs' = AList.update p (Dir True True) fs"
  by (auto simp: mkdir_def is_dir_def split: option.splits node.splits if_splits)

lemma wf_fs_mkdir: "wf_fs fs \<Longrightarrow> mkdir p fs = Inr fs' \<Longrightarrow> wf_fs fs'"
  by (auto dest!: mkdir_Inr intro: wf_fs_update_new)

lemma map_of_mkdir: "mkdir p fs = Inr fs' \<Longrightarrow> map_of fs q = Some n \<Longrightarrow> map_of fs' q = Some n"
  by (auto dest!: mkdir_Inr simp: update_conv')

lemma create_dir_all_preserves:
  "create_dir_all p fs = Inr fs' \<Longrightarrow>
     (wf_fs fs \<longrightarrow> wf_fs fs') \<and> is_dir fs' p \<and> (\<forall>q n. map_of fs q = Some n \<longrightarrow> map_of fs' q = Some n)"
proof (induction p fs arbitrary: fs' rule: create_dir_all.induct)
  case (1 p fs)
  show ?case
  proof (cases "mkdir p fs")
    case (Inr fs1)
    then have "fs' = fs1" using "1.prems" by (simp add: create_dir_all.simps [of p fs])
    with Inr show ?thesis
      by (auto simp: wf_fs_mkdir map_of_mkdir is_dir_def update_conv' dest: mkdir_Inr)
  next
    case (Inl e)
    show ?thesis
    proof (cases "e = NotFound \<and> p \<noteq> []")
      case False
      with Inl "1.prems" show ?thesis by (auto simp: create_dir_all.simps [of p fs] split: if_splits)
    next
      case True
      with Inl "1.prems" obtain fs1 where fs1: "create_dir_all (butlast p) fs = Inr fs1"
        by (auto simp: create_dir_all.simps [of p fs] split: sum.splits)
      from "1.IH" [OF Inl _ _ fs1] True
      have IH: "(wf_fs fs \<longrightarrow> wf_fs fs1) \<and> (\<forall>q n. map_of fs q = Some n \<longrightarrow> map_of fs1 q = Some n)"
        by simp
      show ?thesis
      proof (cases "mkdir p fs1")
        case (Inr fs2)
        with True Inl fs1 "1.prems" have "fs' = fs2" by (simp add: create_dir_all.simps [of p fs])
        with Inr IH show ?thesis
          by (auto simp: wf_fs_mkdir map_of_mkdir is_dir_def update_conv' dest: mkdir_Inr)
      next
        case (Inl e2)
        with True \<open>mkdir p fs = Inl e\<close> fs1 "1.prems" have "fs' = fs1" and "is_dir fs1 p"
          by (auto simp: create_dir_all.simps [of p fs] split: if_splits)
        with IH show ?thesis by simp
      qed
    qed
  qed
qed

lemma create_dir_all_existing:
  assumes "wf_fs fs" and "is_dir fs p"
  shows "create_dir_all p fs = Inr fs"
proof -
  have "mkdir p fs = Inl AlreadyExists"
  proof (cases "p = []")
    case True
    with assms show ?thesis by (auto simp: mkdir_def is_dir_Some)
  next
    case False
    with assms have "is_dir fs (butlast p)" using is_dir_Some wf_fs_parent by blast
    with assms show ?thesis by (auto simp: mkdir_def is_dir_Some)
  qed
  with assms(2) show ?thesis by (simp add: create_dir_all.simps [of p fs])
qed

lemma remove_file_Inr:
  "remove_file p fs = Inr fs' \<Longrightarrow>
     fs' = AList.delete p fs \<and> (\<exists>n. map_of fs p = Some n \<and> \<not> is_dir_node n)"
  by (auto simp: remove_file_def split: option.splits node.splits if_splits)

lemma wf_fs_remove_file: "wf_fs fs \<Longrightarrow> remove_file p fs = Inr fs' \<Longrightarrow> wf_fs fs'"
  by (auto dest!: remove_file_Inr intro: wf_fs_delete_nondir)

lemma remove_file_sibling:
  assumes "p \<noteq> q" and "p \<noteq> butlast q"
  shows "remove_file q (AList.delete p fs) = map_sum id (AList.delete p) (remove_file q fs)"
  using assms
  by (auto simp: remove_file_def delete_conv' delete_twist split: option.splits node.splits)

lemma file_create_Inr:
  "file_create p fs = Inr fs' \<Longrightarrow>
     fs' = AList.update p (RegFile [] False) fs \<and> is_dir fs (butlast p) \<and>
     (map_of fs p = None \<or> (\<exists>c. map_of fs p = Some (RegFile c False)))"
  by (auto simp: file_create_def is_dir_def split: option.splits node.splits if_splits)

lemma wf_fs_file_create: "wf_fs fs \<Longrightarrow> file_create p fs = Inr fs' \<Longrightarrow> wf_fs fs'"
  by (auto dest!: file_create_Inr intro: wf_fs_update_new wf_fs_update_nondir)

lemma children_delete:
  "children d (AList.delete p fs) = filter (\<lambda>e. d @ [fst e] \<noteq> p) (children d fs)"
proof (induction fs)
  case Nil
  then show ?case by (simp add: children_def)
next
  case (Cons a fs)
  then show ?case
    by (cases a) (auto simp: children_def)
qed

lemma children_update_new:
  "map_of fs p = None \<Longrightarrow>
     children d (AList.update p v fs) = children d fs @ (if p \<noteq> [] \<and> butlast p = d then [(last p, v)] else [])"
  by (induction fs) (auto simp: children_def split: if_splits)

lemma children_update_old:
  "distinct (map fst fs) \<Longrightarrow> map_of fs p \<noteq> None \<Longrightarrow>
     children d (AList.update p v fs) = map (\<lambda>e. if d @ [fst e] = p then (fst e, v) else e) (children d fs)"
proof (induction fs)
  case Nil
  then show ?case by simp
next
  case (Cons a fs)
  obtain q x where a: "a = (q, x)" by (cases a)
  show ?case
  proof (cases "q = p")
    case True
    with Cons.prems a have "p \<notin> fst ` set fs" by auto
    then have "\<forall>e \<in> set (children d fs). d @ [fst e] \<noteq> p"
      by (force simp: children_def)
    then have "map (\<lambda>e. if d @ [fst e] = p then (fst e, v) else e) (children d fs) = children d fs"
      by (simp add: map_idI)
    with True a show ?thesis by (auto simp: children_def)
  next
    case False
    with Cons a show ?thesis by (auto simp: children_def)
  qed
qed

lemma children_map_of:
  "distinct (map fst fs) \<Longrightarrow> (n, x) \<in> set (children d fs) \<longleftrightarrow> map_of fs (d @ [n]) = Some x"
  by (auto simp: children_def intro!: bexI [of _ "(d @ [n], x)"])

lemma children_filter:
  "children d (filter P fs) = filter (\<lambda>e. P (d @ [fst e], snd e)) (children d fs)"
proof (induction fs)
  case Nil
  then show ?case by (simp add: children_def)
next
  case (Cons a fs)
  obtain p x where a: "a = (p, x)" by (cases a)
  have "p \<noteq> [] \<Longrightarrow> butlast p = d \<Longrightarrow> d @ [last p] = p"
    by (metis append_butlast_last_id)
  with Cons a show ?case by (auto simp: children_def)
qed

lemma distinct_children:
  "distinct (map fst fs) \<Longrightarrow> distinct (map fst (children d fs))"
proof (induction fs)
  case Nil
  then show ?case by (simp add: children_def)
next
  case (Cons a fs)
  obtain p x where a: "a = (p, x)" by (cases a)
  from Cons.prems a have p: "p \<notin> fst ` set fs" and d: "distinct (map fst fs)" by auto
  show ?case
  proof (cases "p \<noteq> [] \<and> butlast p = d")
    case True
    then have ch: "children d (a # fs) = (last p, x) # children d fs" by (simp add: children_def a)
    have "last p \<notin> fst ` set (children d fs)"
    proof
      assume "last p \<in> fst ` set (children d fs)"
      then obtain q y where "(q, y) \<in> set fs" "q \<noteq> []" "butlast q = d" "last q = last p"
        by (auto simp: children_def)
      with True have "q = p" by (metis append_butlast_last_id)
      with \<open>(q, y) \<in> set fs\<close> p show False by force
    qed
    with Cons.IH [OF d] ch show ?thesis by simp
  next
    case False
    then have "children d (a # fs) = children d fs" by (auto simp: children_def a)
    with Cons.IH [OF d] show ?thesis by simp
  qed
qed

lemma map_of_filter_notin:
  "map_of (filter (\<lambda>e. fst e \<notin> D) fs) q = (if q \<in> D then None else map_of fs q)"
  by (induction fs) auto

end
