(* ===== verification/Decimal.thy ===== *)
theory Decimal
  imports Prelude
begin

text \<open>
  Decimal rendering of unsigned integers as Rust's \<open>Display\<close> writes them
  (\<open>{}\<close>, used for the callsite line number) and with zero padding
  (\<open>{:0w}\<close>, used by chrono's numeric fields). \<open>fixed_digits w n\<close> is the
  last \<open>w\<close> decimal digits of \<open>n\<close>; on numbers below \<open>10^w\<close> it agrees
  with the padded rendering, and it orders like the numbers it renders.
\<close>

definition digit_char :: "nat \<Rightarrow> char" where
  "digit_char d = ''0123456789'' ! d"

fun dec_string :: "nat \<Rightarrow> string" where
  "dec_string n = (if n < 10 then [digit_char n] else dec_string (n div 10) @ [digit_char (n mod 10)])"

declare dec_string.simps [simp del]

definition pad_zero :: "nat \<Rightarrow> string \<Rightarrow> string" where
  "pad_zero w s = replicate (w - length s) (CHR ''0'') @ s"

text \<open>The value a string of decimal digits denotes (used to show rendering is injective).\<close>

definition dec_value :: "string \<Rightarrow> nat" where
  "dec_value s = foldl (\<lambda>a c. 10 * a + (of_char c - 48)) 0 s"

fun fixed_digits :: "nat \<Rightarrow> nat \<Rightarrow> string" where
  "fixed_digits 0 n = []"
| "fixed_digits (Suc w) n = fixed_digits w (n div 10) @ [digit_char (n mod 10)]"

subsection \<open>Digits\<close>

lemma of_char_digit_char: "a < 10 \<Longrightarrow> of_char (digit_char a) = 48 + a"
proof -
  assume "a < 10"
  then have "a \<in> {0, 1, 2, 3, 4, 5, 6, 7, 8, 9}" by auto
  then show ?thesis by (auto simp: digit_char_def)
qed

lemma digit_char_less [lex_simps]:
  "a < 10 \<Longrightarrow> b < 10 \<Longrightarrow> (digit_char a < digit_char b) = (a < b)"
  by (simp add: less_char_def of_char_digit_char)

lemma digit_char_inj:
  "a < 10 \<Longrightarrow> b < 10 \<Longrightarrow> (digit_char a = digit_char b) = (a = b)"
  by (metis add_left_cancel of_char_digit_char)

lemma length_fixed_digits [simp]: "length (fixed_digits w n) = w"
  by (induction w arbitrary: n) auto

lemma length_dec_string_pos: "0 < length (dec_string n)"
  by (subst dec_string.simps) simp

lemma dec_string_length_le:
  "n < 10 ^ w \<Longrightarrow> 0 < w \<Longrightarrow> length (dec_string n) \<le> w"
proof (induction n arbitrary: w rule: dec_string.induct)
  case (1 n)
  show ?case
  proof (cases "n < 10")
    case True
    with "1.prems" show ?thesis by (simp add: dec_string.simps [of n])
  next
    case False
    have "w \<noteq> 1" using False "1.prems"(1) by auto
    then obtain w' where w: "w = Suc w'" and "0 < w'"
      using "1.prems"(2) by (cases w) auto
    with "1.prems" have "n div 10 < 10 ^ w'" by (simp add: div_less_iff_less_mult mult.commute)
    with "1.IH" False \<open>0 < w'\<close> have "length (dec_string (n div 10)) \<le> w'" by simp
    with False w show ?thesis by (simp add: dec_string.simps [of n])
  qed
qed

lemma less_digits_10:
  "b < 10 \<Longrightarrow> d < 10 \<Longrightarrow> (10 * a + b < 10 * c + (d::nat)) = (a < c \<or> a = c \<and> b < d)"
  by arith

lemma num_split_10:
  "((n::nat) < m) = (n div 10 < m div 10 \<or> n div 10 = m div 10 \<and> n mod 10 < m mod 10)"
  using less_digits_10 [of "n mod 10" "m mod 10" "n div 10" "m div 10"] by simp

lemma fixed_digits_less [lex_simps]:
  "n < 10 ^ w \<Longrightarrow> m < 10 ^ w \<Longrightarrow> (fixed_digits w n < fixed_digits w m) = (n < m)"
proof (induction w arbitrary: n m)
  case 0
  then show ?case by simp
next
  case (Suc w)
  from Suc.prems have n: "n div 10 < 10 ^ w" and m: "m div 10 < 10 ^ w"
    by (simp_all add: div_less_iff_less_mult mult.commute)
  have lt: "(fixed_digits w (n div 10) < fixed_digits w (m div 10)) = (n div 10 < m div 10)"
    using Suc.IH [OF n m] .
  have gt: "(fixed_digits w (m div 10) < fixed_digits w (n div 10)) = (m div 10 < n div 10)"
    using Suc.IH [OF m n] .
  have eq: "(fixed_digits w (n div 10) = fixed_digits w (m div 10)) = (n div 10 = m div 10)"
    using lt gt by (metis linorder_neqE_nat not_less_iff_gr_or_eq)
  show ?case
    by (simp add: less_list_append_same_length digit_char_less digit_char_inj lt eq num_split_10 [of n m])
qed

lemma fixed_digits_inj:
  "n < 10 ^ w \<Longrightarrow> m < 10 ^ w \<Longrightarrow> (fixed_digits w n = fixed_digits w m) = (n = m)"
  by (metis fixed_digits_less linorder_neqE_nat less_irrefl)

lemma fixed_digits_Suc_head: "\<exists>d s. d < 10 \<and> fixed_digits (Suc w) n = digit_char d # s"
proof (induction w arbitrary: n)
  case 0
  show ?case by (rule exI [of _ "n mod 10"]) simp
next
  case (Suc w)
  from Suc.IH [of "n div 10"] obtain d s where "d < 10" "fixed_digits (Suc w) (n div 10) = digit_char d # s"
    by blast
  then show ?case
    by (intro exI [of _ d] exI [of _ "s @ [digit_char (n mod 10)]"]) simp
qed

lemma fixed_digits_zero: "fixed_digits w 0 = replicate w (CHR ''0'')"
  by (induction w) (auto simp: digit_char_def replicate_append_same)

lemma fixed_digits_small:
  "n < 10 \<Longrightarrow> fixed_digits (Suc w) n = replicate w (CHR ''0'') @ [digit_char n]"
  by (simp add: fixed_digits_zero)

lemma pad_zero_dec_string:
  "0 < w \<Longrightarrow> n < 10 ^ w \<Longrightarrow> pad_zero w (dec_string n) = fixed_digits w n"
proof (induction n arbitrary: w rule: dec_string.induct)
  case (1 n)
  then obtain w' where w: "w = Suc w'" by (cases w) auto
  show ?case
  proof (cases "n < 10")
    case True
    with w show ?thesis
      by (simp add: dec_string.simps [of n] pad_zero_def fixed_digits_zero)
  next
    case False
    have "w' \<noteq> 0"
    proof
      assume "w' = 0"
      with False "1.prems"(2) w show False by simp
    qed
    moreover have "n div 10 < 10 ^ w'"
      using "1.prems"(2) w by (simp add: div_less_iff_less_mult mult.commute)
    ultimately have IH: "pad_zero w' (dec_string (n div 10)) = fixed_digits w' (n div 10)"
      using "1.IH" False by simp
    have "length (dec_string (n div 10)) \<le> w'"
      using \<open>w' \<noteq> 0\<close> \<open>n div 10 < 10 ^ w'\<close> by (simp add: dec_string_length_le)
    with IH False w show ?thesis
      by (simp add: dec_string.simps [of n] pad_zero_def Suc_diff_le)
  qed
qed

lemma dec_value_digit: "d < 10 \<Longrightarrow> dec_value (s @ [digit_char d]) = 10 * dec_value s + d"
  by (simp add: dec_value_def of_char_digit_char)

lemma dec_value_dec_string: "dec_value (dec_string n) = n"
proof (induction n rule: dec_string.induct)
  case (1 n)
  show ?case
  proof (cases "n < 10")
    case True
    then show ?thesis
      using dec_value_digit [of n "[]"] by (simp add: dec_string.simps [of n] dec_value_def)
  next
    case False
    with "1.IH" show ?thesis by (simp add: dec_string.simps [of n] dec_value_digit)
  qed
qed

lemma dec_string_inj: "(dec_string n = dec_string m) = (n = m)"
  by (metis dec_value_dec_string)

end
