(* ===== verification/Timestamp.thy ===== *)
theory Timestamp
  imports Decimal
begin

text \<open>
  The timestamp in a log file's name: \<open>chrono::Local::now()\<close> formatted with
  \<open>"%Y-%m-%dT%H:%M:%S"\<close> (src/src/writer.rs, line 46). The clock is an input
  of the model: \<open>datetime\<close> holds the local wall-clock fields chrono reads.
  chrono writes \<open>%Y\<close> as four zero-padded digits for years 0 to 9999 and with
  an explicit sign otherwise (\<open>{:+05}\<close>), and the other fields as two
  zero-padded digits (\<open>{:02}\<close>); a leap second shows as second 60.
\<close>

record datetime =
  dt_year :: int
  dt_month :: nat
  dt_day :: nat
  dt_hour :: nat
  dt_minute :: nat
  dt_second :: nat

definition fmt_year :: "int \<Rightarrow> string" where
  "fmt_year y =
     (if 0 \<le> y \<and> y < 10000 then pad_zero 4 (dec_string (nat y))
      else (if y < 0 then CHR ''-'' else CHR ''+'') # pad_zero 4 (dec_string (nat \<bar>y\<bar>)))"

definition fmt2 :: "nat \<Rightarrow> string" where
  "fmt2 n = pad_zero 2 (dec_string n)"

definition format_ts :: "datetime \<Rightarrow> string" where
  "format_ts t =
     fmt_year (dt_year t) @ ''-'' @ fmt2 (dt_month t) @ ''-'' @ fmt2 (dt_day t) @ ''T'' @
     fmt2 (dt_hour t) @ '':'' @ fmt2 (dt_minute t) @ '':'' @ fmt2 (dt_second t)"

text \<open>
  The fields chrono can produce for a four-digit year, and the chronological
  order of wall-clock times: lexicographic on (year, month, day, hour, minute,
  second).
\<close>

definition valid_datetime :: "datetime \<Rightarrow> bool" where
  "valid_datetime t \<longleftrightarrow>
     0 \<le> dt_year t \<and> dt_year t < 10000 \<and> 1 \<le> dt_month t \<and> dt_month t \<le> 12 \<and>
     1 \<le> dt_day t \<and> dt_day t \<le> 31 \<and> dt_hour t < 24 \<and> dt_minute t < 60 \<and> dt_second t \<le> 60"

definition dt_key :: "datetime \<Rightarrow> int \<times> nat \<times> nat \<times> nat \<times> nat \<times> nat" where
  "dt_key t = (dt_year t, dt_month t, dt_day t, dt_hour t, dt_minute t, dt_second t)"

text \<open>
  Reading the fields back from a rendered timestamp, as a tool listing the log
  directory would: six runs of digits at the positions \<open>%Y-%m-%dT%H:%M:%S\<close>
  puts them, with the separators checked.
\<close>

definition parse_ts :: "string \<Rightarrow> (int \<times> nat \<times> nat \<times> nat \<times> nat \<times> nat) option" where
  "parse_ts s =
     (if length s = 19 \<and> s ! 4 = CHR ''-'' \<and> s ! 7 = CHR ''-'' \<and> s ! 10 = CHR ''T'' \<and>
         s ! 13 = CHR '':'' \<and> s ! 16 = CHR '':''
      then Some (int (dec_value (take 4 s)), dec_value (take 2 (drop 5 s)), dec_value (take 2 (drop 8 s)),
                 dec_value (take 2 (drop 11 s)), dec_value (take 2 (drop 14 s)), dec_value (take 2 (drop 17 s)))
      else None)"

subsection \<open>The rendering of valid times\<close>

lemma fmt2_fixed: "n < 100 \<Longrightarrow> fmt2 n = fixed_digits 2 n"
  by (simp add: fmt2_def pad_zero_dec_string)

lemma fmt_year_fixed: "0 \<le> y \<Longrightarrow> y < 10000 \<Longrightarrow> fmt_year y = fixed_digits 4 (nat y)"
  by (simp add: fmt_year_def pad_zero_dec_string)

lemma format_ts_valid:
  assumes "valid_datetime t"
  shows "format_ts t =
     fixed_digits 4 (nat (dt_year t)) @ ''-'' @ fixed_digits 2 (dt_month t) @ ''-'' @
     fixed_digits 2 (dt_day t) @ ''T'' @ fixed_digits 2 (dt_hour t) @ '':'' @
     fixed_digits 2 (dt_minute t) @ '':'' @ fixed_digits 2 (dt_second t)"
  using assms by (simp add: format_ts_def valid_datetime_def fmt2_fixed fmt_year_fixed)

lemma fixed_digits_2_less:
  "a < 100 \<Longrightarrow> b < 100 \<Longrightarrow> (fixed_digits 2 a < fixed_digits 2 b) = (a < b)"
  "a < 100 \<Longrightarrow> b < 100 \<Longrightarrow> (fixed_digits 2 a = fixed_digits 2 b) = (a = b)"
  using fixed_digits_less [of a 2 b] fixed_digits_inj [of a 2 b] by simp_all

lemma fixed_digits_4_less:
  "0 \<le> a \<Longrightarrow> a < 10000 \<Longrightarrow> 0 \<le> b \<Longrightarrow> b < 10000 \<Longrightarrow>
     (fixed_digits 4 (nat a) < fixed_digits 4 (nat b)) = (a < b)"
  "0 \<le> a \<Longrightarrow> a < 10000 \<Longrightarrow> 0 \<le> b \<Longrightarrow> b < 10000 \<Longrightarrow>
     (fixed_digits 4 (nat a) = fixed_digits 4 (nat b)) = (a = b)"
  using fixed_digits_less [of "nat a" 4 "nat b"] fixed_digits_inj [of "nat a" 4 "nat b"]
  by (auto simp: eq_nat_nat_iff)

lemma format_ts_less:
  assumes a: "valid_datetime a" and b: "valid_datetime b"
  shows "(format_ts a < format_ts b) = (dt_key a < dt_key b)"
proof -
  from a b have bounds:
    "dt_month a < 100" "dt_month b < 100" "dt_day a < 100" "dt_day b < 100"
    "dt_hour a < 100" "dt_hour b < 100" "dt_minute a < 100" "dt_minute b < 100"
    "dt_second a < 100" "dt_second b < 100"
    "0 \<le> dt_year a" "dt_year a < 10000" "0 \<le> dt_year b" "dt_year b < 10000"
    by (simp_all add: valid_datetime_def)
  show ?thesis
    unfolding format_ts_valid [OF a] format_ts_valid [OF b] dt_key_def
    by (simp add: less_list_append_same_length fixed_digits_2_less fixed_digits_4_less bounds)
       (auto simp: le_less)
qed


lemma dec_value_fixed_digits: "n < 10 ^ w \<Longrightarrow> dec_value (fixed_digits w n) = n"
proof (induction w arbitrary: n)
  case 0
  then show ?case by (simp add: dec_value_def)
next
  case (Suc w)
  then have "n div 10 < 10 ^ w" by (simp add: div_less_iff_less_mult mult.commute)
  with Suc.IH show ?case by (simp add: dec_value_digit)
qed


text \<open>
  C31. The timestamp in a log file's name round-trips: for every reading chrono can
  produce with a four-digit year, parsing the rendered \<open>%Y-%m-%dT%H:%M:%S\<close>
  gives back the six fields.
\<close>

theorem parse_format_ts:
  assumes v: "valid_datetime t"
  shows "parse_ts (format_ts t) = Some (dt_key t)"
proof -
  have two: "n < 100 \<Longrightarrow> dec_value (fixed_digits 2 n) = n" for n
    using dec_value_fixed_digits [of n 2] by simp
  from v have y: "dec_value (fixed_digits 4 (nat (dt_year t))) = nat (dt_year t)" and y0: "0 \<le> dt_year t"
    using dec_value_fixed_digits [of "nat (dt_year t)" 4] by (auto simp: valid_datetime_def)
  from v have "dt_month t < 100" "dt_day t < 100" "dt_hour t < 100" "dt_minute t < 100" "dt_second t < 100"
    by (auto simp: valid_datetime_def)
  with two y y0 show ?thesis
    unfolding format_ts_valid [OF v] parse_ts_def dt_key_def
    by (simp add: nth_append)
qed

lemma parse_format_ts_witness:
  "parse_ts (format_ts \<lparr>dt_year = 2024, dt_month = 1, dt_day = 4, dt_hour = 13, dt_minute = 5, dt_second = 59\<rparr>) =
     Some (2024, 1, 4, 13, 5, 59)"
  using parse_format_ts [of "\<lparr>dt_year = 2024, dt_month = 1, dt_day = 4, dt_hour = 13, dt_minute = 5, dt_second = 59\<rparr>"]
  by (simp add: valid_datetime_def dt_key_def)

end
