(* ===== verification/BufWriter.thy ===== *)
theory BufWriter
  imports Fs
begin

text \<open>
  \<open>std::io::BufWriter\<close>, the sink of \<open>RotatingFileWriter\<close>. It is generic
  in its inner writer, as in std: a handle of type \<open>'h\<close> (for the rotating
  writer, the \<open>fs::File\<close> it opened) whose \<open>write\<close> acts on an environment
  of type \<open>'s\<close> and may accept a prefix, fail, or be interrupted. The record
  holds the buffer of accepted bytes not yet handed to the inner writer, its
  capacity, and the \<open>panicked\<close> flag. \<open>flush_loop\<close> is the
  \<open>while !guard.done()\<close> loop of \<open>flush_buf\<close>: an inner writer that answers
  \<open>Interrupted\<close> for ever keeps it running, so it is a
  \<open>partial_function (option)\<close>, \<open>None\<close> standing for not returning.
\<close>

definition default_buf_size :: nat where
  "default_buf_size = 8 * 1024"

record 'h buf_writer =
  bw_inner :: 'h
  bw_buf :: "byte list"
  bw_capacity :: nat
  bw_panicked :: bool

type_synonym ('h, 's) inner_write = "'h \<Rightarrow> byte list \<Rightarrow> 's \<Rightarrow> (nat, io_error) outcome \<times> 's"
type_synonym ('h, 's) inner_flush = "'h \<Rightarrow> 's \<Rightarrow> (unit, io_error) outcome \<times> 's"
type_synonym ('a, 'h, 's) bw_step = "((('a, io_error) outcome \<times> 'h buf_writer \<times> 's)) option"

text \<open>\<open>BufWriter::new\<close>: \<open>with_capacity(DEFAULT_BUF_SIZE, inner)\<close>.\<close>

definition bufwriter_new :: "'h \<Rightarrow> 'h buf_writer" where
  "bufwriter_new f = \<lparr>bw_inner = f, bw_buf = [], bw_capacity = default_buf_size, bw_panicked = False\<rparr>"

definition spare_capacity :: "'h buf_writer \<Rightarrow> nat" where
  "spare_capacity bw = bw_capacity bw - length (bw_buf bw)"

text \<open>
  The loop of \<open>flush_buf\<close> on the bytes not yet written: \<open>Ok(0)\<close> is
  \<open>WriteZero\<close>, \<open>Ok(n)\<close> consumes \<open>n\<close> bytes, \<open>Interrupted\<close> retries,
  another error returns; \<open>panicked\<close> is set around each inner call. The
  \<open>BufGuard\<close>'s drop leaves the unwritten rest in the buffer, on every exit.
\<close>

partial_function (option) flush_loop ::
  "('h, 's) inner_write \<Rightarrow> 'h \<Rightarrow> byte list \<Rightarrow> bool \<Rightarrow> 's \<Rightarrow>
     ((unit, io_error) outcome \<times> byte list \<times> bool \<times> 's) option" where
  "flush_loop iw h rest pk s =
     (if rest = [] then Some (Ok (), rest, pk, s)
      else (case iw h rest s of
              (Ok n, s') \<Rightarrow>
                if n = 0 then Some (Err WriteZero, rest, False, s')
                else flush_loop iw h (drop n rest) False s'
            | (Err e, s') \<Rightarrow>
                if e = Interrupted then flush_loop iw h rest False s'
                else Some (Err e, rest, False, s')
            | (Panic m, s') \<Rightarrow> Some (Panic m, rest, True, s')))"

definition flush_buf :: "('h, 's) inner_write \<Rightarrow> 'h buf_writer \<times> 's \<Rightarrow> (unit, 'h, 's) bw_step" where
  "flush_buf iw st =
     map_option (\<lambda>(r, rest, pk, s'). (r, (fst st)\<lparr>bw_buf := rest, bw_panicked := pk\<rparr>, s'))
       (flush_loop iw (bw_inner (fst st)) (bw_buf (fst st)) (bw_panicked (fst st)) (snd st))"

text \<open>
  \<open>write_cold\<close>: flush first if the bytes do not fit the spare capacity; then
  write bytes at least as long as the whole buffer directly to the inner writer,
  and buffer shorter ones.
\<close>

definition write_cold ::
  "('h, 's) inner_write \<Rightarrow> byte list \<Rightarrow> 'h buf_writer \<times> 's \<Rightarrow> (nat, 'h, 's) bw_step" where
  "write_cold iw xs st =
     Option.bind (if spare_capacity (fst st) < length xs then flush_buf iw st else Some (Ok (), st))
       (\<lambda>(r, bw, s). case r of
          Ok _ \<Rightarrow>
            if bw_capacity bw \<le> length xs
            then (case iw (bw_inner bw) xs s of (r', s') \<Rightarrow> Some (r', bw\<lparr>bw_panicked := is_panic r'\<rparr>, s'))
            else Some (Ok (length xs), bw\<lparr>bw_buf := bw_buf bw @ xs\<rparr>, s)
        | Err e \<Rightarrow> Some (Err e, bw, s)
        | Panic m \<Rightarrow> Some (Panic m, bw, s))"

text \<open>\<open>impl Write for BufWriter\<close>: \<open>write\<close> and \<open>flush\<close>.\<close>

definition bw_write ::
  "('h, 's) inner_write \<Rightarrow> byte list \<Rightarrow> 'h buf_writer \<times> 's \<Rightarrow> (nat, 'h, 's) bw_step" where
  "bw_write iw xs st =
     (if length xs < spare_capacity (fst st)
      then Some (Ok (length xs), (fst st)\<lparr>bw_buf := bw_buf (fst st) @ xs\<rparr>, snd st)
      else write_cold iw xs st)"

definition bw_flush ::
  "('h, 's) inner_write \<Rightarrow> ('h, 's) inner_flush \<Rightarrow> 'h buf_writer \<times> 's \<Rightarrow> (unit, 'h, 's) bw_step" where
  "bw_flush iw ifl st =
     Option.bind (flush_buf iw st) (\<lambda>(r, bw, s). case r of
        Ok _ \<Rightarrow> (case ifl (bw_inner bw) s of (r', s') \<Rightarrow> Some (r', bw, s'))
      | Err e \<Rightarrow> Some (Err e, bw, s)
      | Panic m \<Rightarrow> Some (Panic m, bw, s))"

subsection \<open>The inner writer's contract\<close>

text \<open>
  \<open>ab h s\<close> is what the inner writer \<open>h\<close> holds in the environment \<open>s\<close>.
  An honest \<open>write\<close> reports how many leading bytes it took, at most all of
  them, and takes nothing when it fails; an honest \<open>flush\<close> changes nothing of
  what is held. The stream of a buffered writer is what its inner writer holds
  followed by its buffer.
\<close>

definition honest :: "('h, 's) inner_write \<Rightarrow> ('h \<Rightarrow> 's \<Rightarrow> byte list) \<Rightarrow> bool" where
  "honest iw ab \<longleftrightarrow>
     (\<forall>h xs s. case iw h xs s of
        (Ok n, s') \<Rightarrow> n \<le> length xs \<and> ab h s' = ab h s @ take n xs
      | (_, s') \<Rightarrow> ab h s' = ab h s)"

definition flush_honest :: "('h, 's) inner_flush \<Rightarrow> ('h \<Rightarrow> 's \<Rightarrow> byte list) \<Rightarrow> bool" where
  "flush_honest ifl ab \<longleftrightarrow> (\<forall>h s. ab h (snd (ifl h s)) = ab h s)"

definition stream :: "('h \<Rightarrow> 's \<Rightarrow> byte list) \<Rightarrow> 'h buf_writer \<times> 's \<Rightarrow> byte list" where
  "stream ab st = ab (bw_inner (fst st)) (snd st) @ bw_buf (fst st)"

definition bw_inv :: "'h buf_writer \<Rightarrow> bool" where
  "bw_inv bw \<longleftrightarrow> length (bw_buf bw) \<le> bw_capacity bw"


text \<open>
  The postconditions of one \<open>write\<close> (the stream grows by the bytes reported
  written, the handle and capacity stay, the buffer stays within capacity) and of
  the flush loop (what the inner writer holds followed by the unwritten rest is
  unchanged, the rest is a suffix, empty on success).
\<close>

definition write_post ::
  "('h \<Rightarrow> 's \<Rightarrow> byte list) \<Rightarrow> byte list \<Rightarrow> 'h buf_writer \<times> 's \<Rightarrow> (nat, io_error) outcome \<Rightarrow>
     'h buf_writer \<times> 's \<Rightarrow> bool" where
  "write_post ab xs st r st' \<longleftrightarrow>
     bw_inner (fst st') = bw_inner (fst st) \<and> bw_capacity (fst st') = bw_capacity (fst st) \<and>
     bw_inv (fst st') \<and>
     (case r of Ok n \<Rightarrow> n \<le> length xs \<and> stream ab st' = stream ab st @ take n xs
      | _ \<Rightarrow> stream ab st' = stream ab st)"

definition loop_post :: "('h \<Rightarrow> 's \<Rightarrow> byte list) \<Rightarrow> 'h \<Rightarrow> byte list \<Rightarrow> 's \<Rightarrow>
    (unit, io_error) outcome \<times> byte list \<times> bool \<times> 's \<Rightarrow> bool" where
  "loop_post ab h rest s y \<longleftrightarrow>
     (case y of (r, rest', pk', s') \<Rightarrow>
        ab h s' @ rest' = ab h s @ rest \<and> suffix rest' rest \<and> (r = Ok () \<longrightarrow> rest' = []))"

subsection \<open>Lemmas\<close>

lemma honest_step:
  assumes "honest iw ab"
  shows "iw h xs s = (Ok n, s') \<Longrightarrow> n \<le> length xs \<and> ab h s' = ab h s @ take n xs"
    and "iw h xs s = (Err e, s') \<Longrightarrow> ab h s' = ab h s"
    and "iw h xs s = (Panic m, s') \<Longrightarrow> ab h s' = ab h s"
  using assms unfolding honest_def by (metis (mono_tags, lifting) case_prod_conv outcome.simps(10,11,12))+

lemma flush_loop_stream:
  assumes hon: "honest iw ab" and ret: "flush_loop iw h rest pk s = Some y"
  shows "loop_post ab h rest s y"
proof -
  have "honest iw ab \<longrightarrow> loop_post ab h rest s y"
proof (rule flush_loop.raw_induct [where P = "\<lambda>iw h rest pk s y. honest iw ab \<longrightarrow> loop_post ab h rest s y",
      OF _ ret])
  fix f iw h rest pk s y
  assume IH: "\<And>iw h rest pk s y. f iw h rest pk s = Some y \<Longrightarrow> honest iw ab \<longrightarrow> loop_post ab h rest s y"
    and eq: "(if rest = [] then Some (Ok (), rest, pk, s)
      else case iw h rest s of
           (Ok n, s') \<Rightarrow>
             if n = 0 then Some (Err WriteZero, rest, False, s')
             else f iw h (drop n rest) False s'
           | (Err e, s') \<Rightarrow>
               if e = Interrupted then f iw h rest False s'
               else Some (Err e, rest, False, s')
           | (Panic m, s') \<Rightarrow> Some (Panic m, rest, True, s')) = Some y"
  show "honest iw ab \<longrightarrow> loop_post ab h rest s y"
  proof
    assume hon: "honest iw ab"
    show "loop_post ab h rest s y"
    proof (cases "rest = []")
      case True
      with eq show ?thesis by (auto simp: loop_post_def)
    next
      case False
      obtain r1 s1 where c: "iw h rest s = (r1, s1)" by fastforce
      show ?thesis
      proof (cases r1)
        case (Ok n)
        have n: "n \<le> length rest" "ab h s1 = ab h s @ take n rest"
          using honest_step(1) [OF hon] c Ok by auto
        show ?thesis
        proof (cases "n = 0")
          case True
          with eq False c Ok n show ?thesis by (auto simp: loop_post_def)
        next
          case nz: False
          with eq False c Ok have "f iw h (drop n rest) False s1 = Some y" by simp
          with IH hon have "loop_post ab h (drop n rest) s1 y" by blast
          with n show ?thesis
            by (auto simp: loop_post_def split: prod.splits intro: suffix_order.trans suffix_drop)
        qed
      next
        case (Err e)
        have e: "ab h s1 = ab h s" using honest_step(2) [OF hon] c Err by blast
        show ?thesis
        proof (cases "e = Interrupted")
          case True
          with eq False c Err have "f iw h rest False s1 = Some y" by simp
          with IH hon have "loop_post ab h rest s1 y" by blast
          with e show ?thesis by (simp add: loop_post_def split: prod.splits)
        next
          case ni: False
          with eq False c Err e show ?thesis by (auto simp: loop_post_def)
        qed
      next
        case (Panic m)
        have "ab h s1 = ab h s" using honest_step(3) [OF hon] c Panic by blast
        with eq False c Panic show ?thesis by (auto simp: loop_post_def)
      qed
    qed
  qed
qed
  with hon show ?thesis by blast
qed
lemma flush_buf_stream:
  assumes hon: "honest iw ab" and ret: "flush_buf iw st = Some (r, bw', s')"
  shows "stream ab (bw', s') = stream ab st \<and> bw_inner bw' = bw_inner (fst st) \<and>
         bw_capacity bw' = bw_capacity (fst st) \<and> length (bw_buf bw') \<le> length (bw_buf (fst st)) \<and>
         (r = Ok () \<longrightarrow> bw_buf bw' = [])"
proof -
  from ret obtain rest' pk' where
    loop: "flush_loop iw (bw_inner (fst st)) (bw_buf (fst st)) (bw_panicked (fst st)) (snd st) =
             Some (r, rest', pk', s')"
    and bw': "bw' = (fst st)\<lparr>bw_buf := rest', bw_panicked := pk'\<rparr>"
    by (auto simp: flush_buf_def)
  from flush_loop_stream [OF hon loop] have
    "ab (bw_inner (fst st)) s' @ rest' = ab (bw_inner (fst st)) (snd st) @ bw_buf (fst st)"
    "suffix rest' (bw_buf (fst st))" "r = Ok () \<longrightarrow> rest' = []"
    by (simp_all add: loop_post_def)
  with bw' show ?thesis
    by (auto simp: stream_def dest: suffix_length_le)
qed

text \<open>What holds after the optional flush at the start of \<open>write_cold\<close>.\<close>

lemma write_cold_pre:
  assumes hon: "honest iw ab" and inv: "bw_inv (fst st)"
    and pre: "(if spare_capacity (fst st) < length xs then flush_buf iw st else Some (Ok (), st)) =
                Some (r0, bw1, s1)"
  shows "stream ab (bw1, s1) = stream ab st \<and> bw_inner bw1 = bw_inner (fst st) \<and>
         bw_capacity bw1 = bw_capacity (fst st) \<and> bw_inv bw1 \<and>
         (r0 = Ok () \<longrightarrow>
            bw_buf bw1 = [] \<or> length (bw_buf bw1) + length xs \<le> bw_capacity bw1 \<and> length xs < bw_capacity bw1)"
proof (cases "spare_capacity (fst st) < length xs")
  case True
  with pre flush_buf_stream [OF hon] inv show ?thesis
    by (fastforce simp: bw_inv_def)
next
  case False
  with pre have st: "st = (bw1, s1)" by auto
  have fits: "length (bw_buf bw1) + length xs \<le> bw_capacity bw1"
    using False inv st by (simp add: spare_capacity_def bw_inv_def)
  then have "bw_buf bw1 = [] \<or> length xs < bw_capacity bw1"
    by (cases "bw_buf bw1") auto
  with fits inv st show ?thesis by auto
qed

lemma write_cold_post:
  assumes hon: "honest iw ab" and inv: "bw_inv (fst st)" and ret: "write_cold iw xs st = Some (r, st')"
  shows "write_post ab xs st r st'"
proof -
  from ret obtain r0 bw1 s1 where
    pre: "(if spare_capacity (fst st) < length xs then flush_buf iw st else Some (Ok (), st)) =
            Some (r0, bw1, s1)"
    and post: "(case r0 of
          Ok _ \<Rightarrow>
            if bw_capacity bw1 \<le> length xs
            then (case iw (bw_inner bw1) xs s1 of (r', s') \<Rightarrow> Some (r', bw1\<lparr>bw_panicked := is_panic r'\<rparr>, s'))
            else Some (Ok (length xs), bw1\<lparr>bw_buf := bw_buf bw1 @ xs\<rparr>, s1)
        | Err e \<Rightarrow> Some (Err e, bw1, s1)
        | Panic m \<Rightarrow> Some (Panic m, bw1, s1)) = Some (r, st')"
    by (auto simp: write_cold_def bind_eq_Some_conv)
  note P = write_cold_pre [OF hon inv pre]
  show ?thesis
  proof (cases r0)
    case (Ok u)
    show ?thesis
    proof (cases "bw_capacity bw1 \<le> length xs")
      case True
      with P Ok have empty: "bw_buf bw1 = []" by auto
      obtain r' s2 where c: "iw (bw_inner bw1) xs s1 = (r', s2)" by fastforce
      with post Ok True have r: "r = r'" and st': "st' = (bw1\<lparr>bw_panicked := is_panic r'\<rparr>, s2)" by auto
      have "stream ab (bw1, s1) = ab (bw_inner bw1) s1" by (simp add: stream_def empty)
      with P empty r st' c honest_step [OF hon] show ?thesis
        by (cases r') (auto simp: write_post_def stream_def bw_inv_def)
    next
      case False
      with post Ok have "r = Ok (length xs)" and "st' = (bw1\<lparr>bw_buf := bw_buf bw1 @ xs\<rparr>, s1)" by auto
      with P Ok False show ?thesis
        by (auto simp: write_post_def stream_def bw_inv_def)
    qed
  next
    case (Err e)
    with post P show ?thesis by (auto simp: write_post_def)
  next
    case (Panic m)
    with post P show ?thesis by (auto simp: write_post_def)
  qed
qed

lemma bw_write_post:
  assumes hon: "honest iw ab" and inv: "bw_inv (fst st)" and ret: "bw_write iw xs st = Some (r, st')"
  shows "write_post ab xs st r st'"
proof (cases "length xs < spare_capacity (fst st)")
  case True
  with ret inv show ?thesis
    by (auto simp: bw_write_def write_post_def stream_def bw_inv_def spare_capacity_def)
next
  case False
  with ret have "write_cold iw xs st = Some (r, st')" by (simp add: bw_write_def)
  from write_cold_post [OF hon inv this] show ?thesis .
qed

lemma bw_flush_post:
  assumes hon: "honest iw ab" and fh: "flush_honest ifl ab" and inv: "bw_inv (fst st)"
    and ret: "bw_flush iw ifl st = Some (r, bw', s')"
  shows "bw_inner bw' = bw_inner (fst st) \<and> bw_capacity bw' = bw_capacity (fst st) \<and> bw_inv bw' \<and>
         stream ab (bw', s') = stream ab st \<and> (r = Ok () \<longrightarrow> bw_buf bw' = [])"
proof -
  from ret obtain r0 bw1 s1 where fb: "flush_buf iw st = Some (r0, bw1, s1)"
    and post: "(case r0 of
        Ok _ \<Rightarrow> (case ifl (bw_inner bw1) s1 of (r', s') \<Rightarrow> Some (r', bw1, s'))
      | Err e \<Rightarrow> Some (Err e, bw1, s1)
      | Panic m \<Rightarrow> Some (Panic m, bw1, s1)) = Some (r, bw', s')"
    by (auto simp: bw_flush_def bind_eq_Some_conv)
  note F = flush_buf_stream [OF hon fb]
  with inv have inv1: "bw_inv bw1" by (auto simp: bw_inv_def)
  show ?thesis
  proof (cases r0)
    case (Ok u)
    obtain r' s2 where c: "ifl (bw_inner bw1) s1 = (r', s2)" by fastforce
    with post Ok have "r = r'" "bw' = bw1" "s' = s2" by auto
    moreover have "ab (bw_inner bw1) s2 = ab (bw_inner bw1) s1"
      using fh c unfolding flush_honest_def by (metis snd_conv)
    ultimately show ?thesis using F Ok inv1 by (auto simp: stream_def)
  qed (use post F inv1 in auto)
qed

end
