(* ===== verification/Retention.thy ===== *)
theory Retention
  imports Fs Timestamp BufWriter
begin

text \<open>
  \<open>RotatingFileWriter::new\<close> (src/src/writer.rs, lines 10 to 53): create the
  directory, list the log files already in it, delete the oldest so that at most
  \<open>max - 1\<close> remain, and create the new file \<open>prefix.timestamp\<close>. The state
  is the file system together with the warnings the code emits through
  \<open>tracing::warn!\<close> for deletions that fail.
\<close>

record world =
  fsys :: fs
  warnings :: "io_error list"

text \<open>A fallible file-system call, its error propagated by \<open>?\<close>.\<close>

definition fs_op :: "(fs \<Rightarrow> io_error + fs) \<Rightarrow> world \<Rightarrow> (unit, io_error) outcome \<times> world" where
  "fs_op f w = (case f (fsys w) of Inl e \<Rightarrow> (Err e, w) | Inr fs' \<Rightarrow> (Ok (), w\<lparr>fsys := fs'\<rparr>))"

subsection \<open>Directory scan (lines 22 to 32)\<close>

text \<open>
  The \<open>filter_entry\<close> closure: a regular file (walkdir does not follow links,
  so a link is never a file) whose name starts with the prefix.
\<close>

definition log_filter :: "name \<Rightarrow> name \<times> node \<Rightarrow> bool" where
  "log_filter pfx e \<longleftrightarrow> is_file (snd e) \<and> prefix pfx (fst e)"

text \<open>
  \<open>WalkDir::new(dir).max_depth(1).min_depth(1)\<close> yields the entries of
  \<open>dir\<close> itself (the root, at depth 0, is skipped before the filter sees it;
  subdirectories are not entered). An error reading the directory is yielded as an
  \<open>Err\<close> item and dropped by \<open>flat_map(|it| it.ok())\<close>. The result is sorted
  by file name.
\<close>

definition scan_logs :: "path \<Rightarrow> name \<Rightarrow> fs \<Rightarrow> (name \<times> node) list" where
  "scan_logs dir pfx fs =
     (case read_dir dir fs of
        Inl _ \<Rightarrow> []
      | Inr es \<Rightarrow> sort_key fst (filter (log_filter pfx) es))"

subsection \<open>Pruning (lines 34 to 44)\<close>

text \<open>
  The loop body: \<open>_ = fs::remove_file(path).inspect_err(|e| warn!(%e))\<close>.
\<close>

definition remove_step :: "path \<Rightarrow> world \<Rightarrow> world" where
  "remove_step p w =
     (case remove_file p (fsys w) of
        Inl e \<Rightarrow> w\<lparr>warnings := warnings w @ [e]\<rparr>
      | Inr fs' \<Rightarrow> w\<lparr>fsys := fs'\<rparr>)"

text \<open>
  \<open>for i in 0..extra_logs + 1\<close>, each index looked up with
  \<open>logs.get(i).expect(..)\<close>: an index out of range panics.
\<close>

fun remove_logs :: "path \<Rightarrow> (name \<times> node) list \<Rightarrow> nat list \<Rightarrow> world \<Rightarrow> (unit, io_error) outcome \<times> world" where
  "remove_logs dir logs [] w = (Ok (), w)"
| "remove_logs dir logs (i # is) w =
     (case nth_opt logs i of
        None \<Rightarrow> (Panic ''loop only iterates over valid indices'', w)
      | Some e \<Rightarrow> remove_logs dir logs is (remove_step (dir @ [fst e]) w))"

definition prune :: "nat \<Rightarrow> path \<Rightarrow> (name \<times> node) list \<Rightarrow> world \<Rightarrow> (unit, io_error) outcome \<times> world" where
  "prune maxn dir logs w =
     (if maxn \<le> length logs then remove_logs dir logs [0..<length logs - maxn + 1] w
      else (Ok (), w))"

subsection \<open>Construction (lines 15 to 53)\<close>

text \<open>\<open>format!("{}.{time}", prefix.as_ref())\<close>\<close>

definition log_file_name :: "name \<Rightarrow> datetime \<Rightarrow> name" where
  "log_file_name pfx now = pfx @ ''.'' @ format_ts now"

record rotating_file_writer =
  sink :: "path buf_writer"

text \<open>
  \<open>RotatingFileWriter::new(max, dir, prefix)\<close>, with \<open>now\<close> the value
  \<open>chrono::Local::now()\<close> reads at line 46.
\<close>

definition rotating_new ::
  "nat \<Rightarrow> path \<Rightarrow> name \<Rightarrow> datetime \<Rightarrow> world \<Rightarrow> (rotating_file_writer, io_error) outcome \<times> world" where
  "rotating_new max0 dir pfx now w =
     bind_out (fs_op (create_dir_all dir) w) (\<lambda>_ w1.
       let max1 = (if max0 < 1 then 1 else max0);
           logs = scan_logs dir pfx (fsys w1)
       in bind_out (prune max1 dir logs w1) (\<lambda>_ w2.
            let p = dir @ [log_file_name pfx now]
            in bind_out (fs_op (file_create p) w2) (\<lambda>_ w3.
                 (Ok \<lparr>sink = bufwriter_new p\<rparr>, w3))))"

text \<open>The qualifying files of a directory: the names the retention policy counts.\<close>

definition log_names :: "path \<Rightarrow> name \<Rightarrow> fs \<Rightarrow> name list" where
  "log_names dir pfx fs = map fst (filter (log_filter pfx) (children dir fs))"

subsection \<open>Specification-level names for the proofs\<close>

text \<open>
  What the pruner is meant to delete (spec section 4.2): of the \<open>n\<close> qualifying
  names, the \<open>n - max + 1\<close> smallest, none when \<open>n < max\<close>.
\<close>

definition doomed :: "nat \<Rightarrow> name list \<Rightarrow> name list" where
  "doomed maxn L = take (length L + 1 - maxn) (sort L)"

text \<open>
  Of the names \<open>ns\<close> in \<open>dir\<close>, those whose removal succeeds, and the errors
  of those whose removal fails, in loop order.
\<close>

definition removed_names :: "path \<Rightarrow> name list \<Rightarrow> fs \<Rightarrow> name list" where
  "removed_names dir ns fs = [n \<leftarrow> ns. \<not> isl (remove_file (dir @ [n]) fs)]"

definition removal_errors :: "path \<Rightarrow> name list \<Rightarrow> fs \<Rightarrow> io_error list" where
  "removal_errors dir ns fs = concat (map (\<lambda>n. case remove_file (dir @ [n]) fs of Inl e \<Rightarrow> [e] | Inr _ \<Rightarrow> []) ns)"

subsection \<open>Example states\<close>

text \<open>
  A log directory with three logs of the application \<open>app\<close>, one unrelated file,
  and the clock one day after the newest log.
\<close>

definition ex_world :: world where
  "ex_world = \<lparr>fsys = [([], Dir True True), ([''logs''], Dir True True),
      ([''logs'', ''app.2024-01-02T00:00:00''], RegFile [] False),
      ([''logs'', ''other.txt''], RegFile [] False),
      ([''logs'', ''app.2024-01-01T00:00:00''], RegFile [] False),
      ([''logs'', ''app.2024-01-03T00:00:00''], RegFile [] False)], warnings = []\<rparr>"

definition ex_now :: datetime where
  "ex_now = \<lparr>dt_year = 2024, dt_month = 1, dt_day = 4, dt_hour = 0, dt_minute = 0, dt_second = 0\<rparr>"

text \<open>A path whose regular file is immutable, so that removing it fails.\<close>

definition locked :: "fs \<Rightarrow> path \<Rightarrow> bool" where
  "locked fs p = (case map_of fs p of Some (RegFile _ imm) \<Rightarrow> imm | _ \<Rightarrow> False)"

text \<open>
  Variants of the example: an immutable oldest log; a regular file where the log
  directory should be; a directory where the new log file should go; a log from the
  same second as the clock; a log directory that cannot be listed.
\<close>

definition ex_locked :: world where
  "ex_locked = \<lparr>fsys = [([], Dir True True), ([''logs''], Dir True True),
      ([''logs'', ''app.2024-01-02T00:00:00''], RegFile [] False),
      ([''logs'', ''app.2024-01-01T00:00:00''], RegFile [] True),
      ([''logs'', ''app.2024-01-03T00:00:00''], RegFile [] False)], warnings = []\<rparr>"

definition ex_file_dir :: world where
  "ex_file_dir = \<lparr>fsys = [([], Dir True True), ([''logs''], RegFile [] False)], warnings = []\<rparr>"

definition ex_taken :: world where
  "ex_taken = \<lparr>fsys = [([], Dir True True), ([''logs''], Dir True True),
      ([''logs'', ''app.2024-01-01T00:00:00''], RegFile [] False),
      ([''logs'', ''app.2024-01-04T00:00:00''], Dir True True)], warnings = []\<rparr>"

definition ex_collide :: world where
  "ex_collide = \<lparr>fsys = [([], Dir True True), ([''logs''], Dir True True),
      ([''logs'', ''app.2024-01-04T00:00:00''], RegFile [1, 2, 3] False)], warnings = []\<rparr>"

definition ex_unreadable :: world where
  "ex_unreadable = \<lparr>fsys = [([], Dir True True), ([''logs''], Dir False True),
      ([''logs'', ''app.2024-01-02T00:00:00''], RegFile [] False),
      ([''logs'', ''app.2024-01-01T00:00:00''], RegFile [] False),
      ([''logs'', ''app.2024-01-03T00:00:00''], RegFile [] False)], warnings = []\<rparr>"

subsection \<open>The scan and the pruning loop\<close>

lemma remove_logs_valid:
  "\<forall>i \<in> set is. i < length logs \<Longrightarrow>
     remove_logs dir logs is w = (Ok (), fold (\<lambda>i. remove_step (dir @ [fst (logs ! i)])) is w)"
  by (induction "is" arbitrary: w) auto

lemma prune_fold:
  assumes "1 \<le> maxn"
  shows "prune maxn dir logs w =
           (Ok (), fold remove_step (map (\<lambda>e. dir @ [fst e]) (take (length logs + 1 - maxn) logs)) w)"
proof (cases "maxn \<le> length logs")
  case True
  define k where "k = length logs + 1 - maxn"
  have le: "k \<le> length logs" using assms by (simp add: k_def)
  have "length logs - maxn + 1 = k" using True by (simp add: k_def)
  then have "prune maxn dir logs w = remove_logs dir logs [0..<k] w"
    using True by (simp add: prune_def del: upt_Suc)
  also have "\<dots> = (Ok (), fold (\<lambda>i. remove_step (dir @ [fst (logs ! i)])) [0..<k] w)"
    using le by (intro remove_logs_valid) auto
  also have "fold (\<lambda>i. remove_step (dir @ [fst (logs ! i)])) [0..<k] =
        fold remove_step (map (\<lambda>i. dir @ [fst (logs ! i)]) [0..<k])"
    by (simp add: fold_map comp_def)
  also have "\<dots> = fold remove_step (map (\<lambda>e. dir @ [fst e]) (take k logs))"
    using le by (simp add: map_nth_upt_take [where f = "\<lambda>e. dir @ [fst e]"])
  finally show ?thesis by (simp add: k_def)
next
  case False
  then show ?thesis by (simp add: prune_def)
qed

lemma remove_file_sibling_dir:
  "n \<noteq> m \<Longrightarrow> remove_file (dir @ [m]) (AList.delete (dir @ [n]) fs) =
     map_sum id (AList.delete (dir @ [n])) (remove_file (dir @ [m]) fs)"
  by (rule remove_file_sibling) auto

lemma fold_remove_step:
  assumes "distinct ns"
  shows "fsys (fold remove_step (map (\<lambda>n. dir @ [n]) ns) w) =
           filter (\<lambda>e. fst e \<notin> (\<lambda>n. dir @ [n]) ` set (removed_names dir ns (fsys w))) (fsys w)
         \<and> warnings (fold remove_step (map (\<lambda>n. dir @ [n]) ns) w) =
           warnings w @ removal_errors dir ns (fsys w)"
  using assms
proof (induction ns arbitrary: w)
  case Nil
  then show ?case by (simp add: removed_names_def removal_errors_def)
next
  case (Cons n ns)
  then have n: "n \<notin> set ns" and d: "distinct ns" by simp_all
  show ?case
  proof (cases "remove_file (dir @ [n]) (fsys w)")
    case (Inl e)
    then show ?thesis
      using Cons.IH [OF d, of "w\<lparr>warnings := warnings w @ [e]\<rparr>"]
      by (simp add: remove_step_def removed_names_def removal_errors_def)
  next
    case (Inr fs')
    then have fs': "fs' = AList.delete (dir @ [n]) (fsys w)" by (simp add: remove_file_Inr)
    have same: "\<And>m. m \<in> set ns \<Longrightarrow> remove_file (dir @ [m]) fs' =
                   map_sum id (AList.delete (dir @ [n])) (remove_file (dir @ [m]) (fsys w))"
      using n fs' by (metis remove_file_sibling_dir)
    then have rn: "removed_names dir ns fs' = removed_names dir ns (fsys w)"
      and re: "removal_errors dir ns fs' = removal_errors dir ns (fsys w)"
      unfolding removed_names_def removal_errors_def
      by (auto intro!: filter_cong arg_cong [where f = concat] map_cong split: sum.splits)
    let ?D = "(\<lambda>n. dir @ [n]) ` set (removed_names dir ns (fsys w))"
    have step: "fold remove_step (map (\<lambda>n. dir @ [n]) (n # ns)) w =
                fold remove_step (map (\<lambda>n. dir @ [n]) ns) (w\<lparr>fsys := fs'\<rparr>)"
      by (simp add: remove_step_def Inr)
    have rn_cons: "removed_names dir (n # ns) (fsys w) = n # removed_names dir ns (fsys w)"
      and re_cons: "removal_errors dir (n # ns) (fsys w) = removal_errors dir ns (fsys w)"
      by (simp_all add: removed_names_def removal_errors_def Inr)
    have filt: "filter (\<lambda>e. fst e \<notin> ?D) fs' = filter (\<lambda>e. fst e \<notin> insert (dir @ [n]) ?D) (fsys w)"
      unfolding fs' AList.delete_eq filter_filter by (rule filter_cong) auto
    from Cons.IH [OF d, of "w\<lparr>fsys := fs'\<rparr>"] show ?thesis
      unfolding step rn_cons re_cons by (simp add: rn re filt)
  qed
qed

lemma scan_logs_readable:
  "map_of fs dir = Some (Dir True w) \<Longrightarrow>
     scan_logs dir pfx fs = sort_key fst (filter (log_filter pfx) (children dir fs))"
  by (simp add: scan_logs_def read_dir_def)

lemma map_fst_scan_logs:
  "map_of fs dir = Some (Dir True w) \<Longrightarrow> map fst (scan_logs dir pfx fs) = sort (log_names dir pfx fs)"
  by (simp add: scan_logs_readable map_sort_key log_names_def)

lemma length_scan_logs:
  "map_of fs dir = Some (Dir True w) \<Longrightarrow> length (scan_logs dir pfx fs) = length (log_names dir pfx fs)"
  by (simp add: scan_logs_readable log_names_def)

lemma distinct_log_names: "wf_fs fs \<Longrightarrow> distinct (log_names dir pfx fs)"
  unfolding log_names_def wf_fs_def by (blast intro: filter_map_fst_distinct distinct_children)

lemma log_names_map_of:
  assumes "wf_fs fs"
  shows "n \<in> set (log_names dir pfx fs) \<longleftrightarrow>
     (\<exists>x. map_of fs (dir @ [n]) = Some x \<and> is_file x \<and> prefix pfx n)"
proof -
  have d: "distinct (map fst fs)" using assms by (simp add: wf_fs_def)
  have "n \<in> set (log_names dir pfx fs) \<longleftrightarrow> (\<exists>x. (n, x) \<in> set (children dir fs) \<and> log_filter pfx (n, x))"
    by (force simp: log_names_def)
  also have "\<dots> \<longleftrightarrow> (\<exists>x. map_of fs (dir @ [n]) = Some x \<and> log_filter pfx (n, x))"
    by (simp add: children_map_of [OF d])
  finally show ?thesis by (simp add: log_filter_def)
qed

text \<open>The shape of \<open>new\<close> when the directory exists.\<close>

lemma rotating_new_existing_dir:
  assumes "wf_fs (fsys w)" and "is_dir (fsys w) dir"
  shows "rotating_new m dir pfx now w =
    (let logs = scan_logs dir pfx (fsys w);
         p = dir @ [log_file_name pfx now]
     in bind_out (fs_op (file_create p)
            (fold remove_step (map (\<lambda>e. dir @ [fst e]) (take (length logs + 1 - max 1 m) logs)) w))
          (\<lambda>_ w3. (Ok \<lparr>sink = bufwriter_new p\<rparr>, w3)))"
proof -
  let ?logs = "scan_logs dir pfx (fsys w)"
  have c: "fs_op (create_dir_all dir) w = (Ok (), w)"
    using assms by (simp add: fs_op_def create_dir_all_existing)
  have mx: "(if m < 1 then 1 else m) = max 1 m" by simp
  have p: "prune (if m < 1 then 1 else m) dir ?logs w =
      (Ok (), fold remove_step (map (\<lambda>e. dir @ [fst e]) (take (length ?logs + 1 - max 1 m) ?logs)) w)"
    unfolding mx by (rule prune_fold) simp
  show ?thesis
    unfolding rotating_new_def c bind_out_Ok Let_def p ..
qed

subsection \<open>The whole constructor\<close>

lemma fold_remove_step_fields:
  "fold remove_step ps w = w\<lparr>fsys := fsys (fold remove_step ps w), warnings := warnings (fold remove_step ps w)\<rparr>"
proof (induction ps arbitrary: w)
  case Nil
  then show ?case by simp
next
  case (Cons p ps)
  have "remove_step p w = w\<lparr>fsys := fsys (remove_step p w), warnings := warnings (remove_step p w)\<rparr>"
    by (simp add: remove_step_def split: sum.splits)
  with Cons.IH [of "remove_step p w"] show ?case by (metis fold_Cons comp_apply world.update_convs(1,2) world.surjective)
qed

lemma scan_prefix_names:
  assumes "map_of fs dir = Some (Dir True wr)"
  shows "map (\<lambda>e. dir @ [fst e]) (take k (scan_logs dir pfx fs)) = map (\<lambda>n. dir @ [n]) (take k (sort (log_names dir pfx fs)))"
proof -
  have "map (\<lambda>e. dir @ [fst e]) (take k (scan_logs dir pfx fs)) = map (\<lambda>n. dir @ [n]) (take k (map fst (scan_logs dir pfx fs)))"
    by (simp add: take_map)
  then show ?thesis using assms by (simp add: map_fst_scan_logs)
qed

theorem rotating_new_state:
  fixes m :: nat and pfx :: name and now :: datetime
  assumes wf: "wf_fs (fsys w)" and dir: "map_of (fsys w) dir = Some (Dir True wr)"
  shows "rotating_new m dir pfx now w =
    (let old = doomed (max 1 m) (log_names dir pfx (fsys w));
         P = dir @ [log_file_name pfx now];
         fs2 = filter (\<lambda>e. fst e \<notin> (\<lambda>n. dir @ [n]) ` set (removed_names dir old (fsys w))) (fsys w);
         ws = warnings w @ removal_errors dir old (fsys w)
     in case file_create P fs2 of
          Inl e \<Rightarrow> (Err e, w\<lparr>fsys := fs2, warnings := ws\<rparr>)
        | Inr fs3 \<Rightarrow> (Ok \<lparr>sink = bufwriter_new P\<rparr>, w\<lparr>fsys := fs3, warnings := ws\<rparr>))"
proof -
  let ?L = "log_names dir pfx (fsys w)"
  let ?old = "doomed (max 1 m) ?L"
  have isd: "is_dir (fsys w) dir" using dir by (simp add: is_dir_def)
  have len: "length (scan_logs dir pfx (fsys w)) = length ?L"
    using dir by (simp add: length_scan_logs)
  have names: "map (\<lambda>e. dir @ [fst e]) (take (length ?L + 1 - max 1 m) (scan_logs dir pfx (fsys w))) =
               map (\<lambda>n. dir @ [n]) ?old"
    using dir by (simp add: doomed_def scan_prefix_names)
  have dist: "distinct ?old"
    using wf by (simp add: doomed_def distinct_log_names)
  let ?fs2 = "filter (\<lambda>e. fst e \<notin> (\<lambda>n. dir @ [n]) ` set (removed_names dir ?old (fsys w))) (fsys w)"
  let ?ws = "warnings w @ removal_errors dir ?old (fsys w)"
  have w2: "fold remove_step (map (\<lambda>n. dir @ [n]) ?old) w = w\<lparr>fsys := ?fs2, warnings := ?ws\<rparr>"
    using fold_remove_step [OF dist, of dir w] fold_remove_step_fields [of _ w] by metis
  show ?thesis
    unfolding rotating_new_existing_dir [OF wf isd] Let_def len names w2
    by (simp add: fs_op_def split: sum.splits)
qed

lemma length_filter_notin:
  assumes "distinct xs" and "distinct ys" and "set ys \<subseteq> set xs"
  shows "length (filter (\<lambda>x. x \<notin> set ys) xs) = length xs - length ys"
proof -
  have "set (filter (\<lambda>x. x \<in> set ys) xs) = set ys" using assms(3) by auto
  then have "length (filter (\<lambda>x. x \<in> set ys) xs) = length ys"
    using assms(1,2) by (metis distinct_card distinct_filter)
  moreover have "length (filter (\<lambda>x. x \<in> set ys) xs) + length (filter (\<lambda>x. x \<notin> set ys) xs) = length xs"
    by (rule sum_length_filter_compl)
  ultimately show ?thesis by simp
qed

lemma removable_log:
  assumes wf: "wf_fs fs" and dir: "map_of fs dir = Some (Dir r True)"
    and n: "n \<in> set (log_names dir pfx fs)" and mut: "\<forall>c. map_of fs (dir @ [n]) \<noteq> Some (RegFile c True)"
  shows "remove_file (dir @ [n]) fs = Inr (AList.delete (dir @ [n]) fs)"
proof -
  from n wf obtain x where x: "map_of fs (dir @ [n]) = Some x" "is_file x"
    by (auto simp: log_names_map_of)
  with mut obtain c where "x = RegFile c False" by (cases x) auto
  with x dir show ?thesis by (simp add: remove_file_def)
qed

lemma child_path_image [simp]: "(dir @ [a] \<in> (\<lambda>n. dir @ [n]) ` A) = (a \<in> A)"
  by auto

lemma log_names_filter:
  "log_names dir pfx (filter (\<lambda>e. fst e \<notin> (\<lambda>n. dir @ [n]) ` A) fs) =
     filter (\<lambda>n. n \<notin> A) (log_names dir pfx fs)"
  by (simp add: log_names_def children_filter filter_map filter_filter comp_def conj_commute)

lemma log_names_update_new:
  assumes "map_of fs (dir @ [n]) = None"
  shows "log_names dir pfx (AList.update (dir @ [n]) v fs) =
           log_names dir pfx fs @ (if log_filter pfx (n, v) then [n] else [])"
  using assms by (simp add: log_names_def children_update_new)

lemma log_filter_new [simp]: "log_filter pfx (log_file_name pfx now, RegFile [] False)"
  by (simp add: log_filter_def log_file_name_def)

lemma doomed_sub: "set (doomed k L) \<subseteq> set L"
  by (auto simp: doomed_def dest: in_set_takeD)

lemma length_doomed: "1 \<le> k \<Longrightarrow> length (doomed k L) = length L + 1 - k"
  by (simp add: doomed_def)

lemma distinct_doomed: "distinct L \<Longrightarrow> distinct (doomed k L)"
  by (simp add: doomed_def)

lemma removed_all:
  assumes wf: "wf_fs fs" and dir: "map_of fs dir = Some (Dir r True)"
    and mut: "\<forall>n \<in> set L. \<forall>c. map_of fs (dir @ [n]) \<noteq> Some (RegFile c True)"
    and sub: "set ns \<subseteq> set L" and L: "L = log_names dir pfx fs"
  shows "removed_names dir ns fs = ns" and "removal_errors dir ns fs = []"
proof -
  have r: "\<And>n. n \<in> set ns \<Longrightarrow> remove_file (dir @ [n]) fs = Inr (AList.delete (dir @ [n]) fs)"
    using removable_log [OF wf dir] mut sub L by blast
  then show "removed_names dir ns fs = ns"
    by (simp add: removed_names_def)
  from r show "removal_errors dir ns fs = []"
    by (simp add: removal_errors_def)
qed

lemma dir_notin_child_image [simp]: "dir \<notin> (\<lambda>n. dir @ [n]) ` A"
  by auto

lemma rotating_new_clean:
  assumes wf: "wf_fs (fsys w)"
    and dir: "map_of (fsys w) dir = Some (Dir True True)"
    and mut: "\<forall>n \<in> set (log_names dir pfx (fsys w)). \<forall>c. map_of (fsys w) (dir @ [n]) \<noteq> Some (RegFile c True)"
    and fresh: "map_of (fsys w) (dir @ [log_file_name pfx now]) = None"
  shows "rotating_new m dir pfx now w =
      (Ok \<lparr>sink = bufwriter_new (dir @ [log_file_name pfx now])\<rparr>,
       w\<lparr>fsys := AList.update (dir @ [log_file_name pfx now]) (RegFile [] False)
                 (filter (\<lambda>e. fst e \<notin> (\<lambda>n. dir @ [n]) ` set (doomed (max 1 m) (log_names dir pfx (fsys w)))) (fsys w)),
          warnings := warnings w\<rparr>)"
    and "log_names dir pfx (fsys (snd (rotating_new m dir pfx now w))) =
      filter (\<lambda>n. n \<notin> set (doomed (max 1 m) (log_names dir pfx (fsys w)))) (log_names dir pfx (fsys w))
        @ [log_file_name pfx now]"
proof -
  let ?fs = "fsys w"
  let ?old = "doomed (max 1 m) (log_names dir pfx ?fs)"
  let ?nm = "log_file_name pfx now"
  let ?fs2 = "filter (\<lambda>e. fst e \<notin> (\<lambda>n. dir @ [n]) ` set ?old) ?fs"
  have rn: "removed_names dir ?old ?fs = ?old" and re: "removal_errors dir ?old ?fs = []"
    using removed_all [OF wf dir mut doomed_sub] by simp_all
  have dir2: "map_of ?fs2 dir = Some (Dir True True)"
    using dir by (simp add: map_of_filter_notin)
  have new2: "map_of ?fs2 (dir @ [?nm]) = None"
    using fresh by (simp add: map_of_filter_notin)
  have fc: "file_create (dir @ [?nm]) ?fs2 = Inr (AList.update (dir @ [?nm]) (RegFile [] False) ?fs2)"
    using dir2 new2 by (simp add: file_create_def)
  show st: "rotating_new m dir pfx now w =
      (Ok \<lparr>sink = bufwriter_new (dir @ [?nm])\<rparr>,
       w\<lparr>fsys := AList.update (dir @ [?nm]) (RegFile [] False) ?fs2, warnings := warnings w\<rparr>)"
    using rotating_new_state [OF wf dir, of m pfx now] unfolding Let_def rn re fc by simp
  have "log_names dir pfx (AList.update (dir @ [?nm]) (RegFile [] False) ?fs2) =
      filter (\<lambda>n. n \<notin> set ?old) (log_names dir pfx ?fs) @ [?nm]"
    using new2 by (simp add: log_names_update_new log_names_filter)
  with st show "log_names dir pfx (fsys (snd (rotating_new m dir pfx now w))) =
      filter (\<lambda>n. n \<notin> set ?old) (log_names dir pfx ?fs) @ [?nm]" by simp
qed

lemma doomed_oldest:
  "distinct L \<Longrightarrow> x \<in> set (doomed k L) \<Longrightarrow> y \<in> set L - set (doomed k L) \<Longrightarrow> x < y"
proof -
  assume d: "distinct L" and x: "x \<in> set (doomed k L)" and y: "y \<in> set L - set (doomed k L)"
  have "set L = set (take (length L + 1 - k) (sort L)) \<union> set (drop (length L + 1 - k) (sort L))"
    by (metis append_take_drop_id set_append set_sort)
  with y have y': "y \<in> set (drop (length L + 1 - k) (sort L))" by (auto simp: doomed_def)
  from x have x': "x \<in> set (take (length L + 1 - k) (sort L))" by (simp add: doomed_def)
  show "x < y"
    using sorted_list_prefix_set [OF sorted_sort _ x' y'] d by simp
qed

lemma rotating_new_unfold:
  "rotating_new m dir pfx now w =
    (case create_dir_all dir (fsys w) of
       Inl e \<Rightarrow> (Err e, w)
     | Inr fs1 \<Rightarrow>
         (let logs = scan_logs dir pfx fs1;
              p = dir @ [log_file_name pfx now]
          in bind_out (fs_op (file_create p)
                 (fold remove_step (map (\<lambda>n. dir @ [n]) (map fst (take (length logs + 1 - max 1 m) logs)))
                   (w\<lparr>fsys := fs1\<rparr>)))
               (\<lambda>_ w3. (Ok \<lparr>sink = bufwriter_new p\<rparr>, w3))))"
proof (cases "create_dir_all dir (fsys w)")
  case (Inl e)
  then show ?thesis by (simp add: rotating_new_def fs_op_def)
next
  case (Inr fs1)
  let ?logs = "scan_logs dir pfx fs1"
  have c: "fs_op (create_dir_all dir) w = (Ok (), w\<lparr>fsys := fs1\<rparr>)"
    using Inr by (simp add: fs_op_def)
  have mx: "(if m < 1 then 1 else m) = max 1 m" by simp
  have p: "prune (if m < 1 then 1 else m) dir ?logs (w\<lparr>fsys := fs1\<rparr>) =
      (Ok (), fold remove_step (map (\<lambda>n. dir @ [n]) (map fst (take (length ?logs + 1 - max 1 m) ?logs)))
                 (w\<lparr>fsys := fs1\<rparr>))"
    unfolding mx by (simp add: prune_fold comp_def)
  have sel: "fsys (w\<lparr>fsys := fs1\<rparr>) = fs1" by simp
  show ?thesis
    unfolding rotating_new_def c bind_out_Ok Let_def sel p using Inr by simp
qed

lemma scan_logs_member:
  assumes "distinct (map fst fs)" and "e \<in> set (scan_logs dir pfx fs)"
  shows "map_of fs (dir @ [fst e]) = Some (snd e) \<and> log_filter pfx e"
proof (cases "read_dir dir fs")
  case (Inl err)
  with assms(2) show ?thesis by (simp add: scan_logs_def)
next
  case (Inr es)
  then have "es = children dir fs"
    by (auto simp: read_dir_def split: option.splits node.splits if_splits)
  with Inr assms show ?thesis
    by (cases e) (auto simp: scan_logs_def children_map_of)
qed

lemma distinct_scan_logs:
  "distinct (map fst fs) \<Longrightarrow> distinct (map fst (scan_logs dir pfx fs))"
  by (auto simp: scan_logs_def read_dir_def map_sort_key filter_map_fst_distinct distinct_children
      split: sum.splits option.splits node.splits)

lemma remove_log_result:
  assumes wf: "wf_fs fs" and dir: "map_of fs dir = Some (Dir r True)"
    and n: "n \<in> set (log_names dir pfx fs)"
  shows "remove_file (dir @ [n]) fs =
           (if locked fs (dir @ [n]) then Inl PermissionDenied else Inr (AList.delete (dir @ [n]) fs))"
proof -
  from n wf obtain x where x: "map_of fs (dir @ [n]) = Some x" "is_file x"
    by (auto simp: log_names_map_of)
  then obtain c imm where "x = RegFile c imm" by (cases x) auto
  with x dir show ?thesis by (simp add: remove_file_def locked_def)
qed

lemma concat_map_singleton_if:
  "concat (map (\<lambda>x. if P x then [a] else []) xs) = map (\<lambda>_. a) (filter P xs)"
  by (induction xs) auto

subsection \<open>The example states evaluated\<close>

lemma ex_now_name: "log_file_name ''app'' ex_now = ''app.2024-01-04T00:00:00''"
  by (simp add: log_file_name_def ex_now_def format_ts_def fmt_year_def fmt2_def pad_zero_def
      dec_string.simps digit_char_def)

lemma ex_world_names:
  "log_names [''logs''] ''app'' (fsys ex_world) =
     [''app.2024-01-02T00:00:00'', ''app.2024-01-01T00:00:00'', ''app.2024-01-03T00:00:00'']"
  by (simp add: ex_world_def log_names_def children_def log_filter_def)

lemma ex_world_doomed:
  "doomed (max 1 2) [''app.2024-01-02T00:00:00'', ''app.2024-01-01T00:00:00'', ''app.2024-01-03T00:00:00''] =
     [''app.2024-01-01T00:00:00'', ''app.2024-01-02T00:00:00'']"
  by (simp add: doomed_def)

lemma ex_world_wf: "wf_fs (fsys ex_world)"
  by (simp add: ex_world_def wf_fs_def is_dir_def)

lemma ex_world_dir: "map_of (fsys ex_world) [''logs''] = Some (Dir True True)"
  by (simp add: ex_world_def)

lemma ex_world_fresh: "map_of (fsys ex_world) ([''logs''] @ [log_file_name ''app'' ex_now]) = None"
  by (simp add: ex_now_name ex_world_def)

lemma ex_world_mutable:
  "\<forall>n \<in> set (log_names [''logs''] ''app'' (fsys ex_world)).
      \<forall>c. map_of (fsys ex_world) ([''logs''] @ [n]) \<noteq> Some (RegFile c True)"
  unfolding ex_world_names by (simp add: ex_world_def)

subsection \<open>Properties of the constructor\<close>

text \<open>
  C1. Retention count. When the log directory exists and is readable and writable,
  no qualifying file is immutable and the new file's name is not taken, construction
  succeeds and the directory then holds \<open>min(n, max - 1) + 1\<close> qualifying files,
  where \<open>n\<close> is the number before and \<open>max\<close> is coerced to at least 1.
\<close>

theorem rotating_new_count:
  assumes wf: "wf_fs (fsys w)"
    and dir: "map_of (fsys w) dir = Some (Dir True True)"
    and mut: "\<forall>n \<in> set (log_names dir pfx (fsys w)). \<forall>c. map_of (fsys w) (dir @ [n]) \<noteq> Some (RegFile c True)"
    and fresh: "map_of (fsys w) (dir @ [log_file_name pfx now]) = None"
  shows "(\<exists>wr. fst (rotating_new m dir pfx now w) = Ok wr) \<and>
         length (log_names dir pfx (fsys (snd (rotating_new m dir pfx now w)))) =
           min (length (log_names dir pfx (fsys w))) (max 1 m - 1) + 1"
proof -
  let ?L = "log_names dir pfx (fsys w)"
  let ?old = "doomed (max 1 m) ?L"
  have len: "length (filter (\<lambda>n. n \<notin> set ?old) ?L) = length ?L - length ?old"
    using wf by (simp add: length_filter_notin distinct_log_names distinct_doomed doomed_sub)
  have "length ?old = length ?L + 1 - max 1 m" by (simp add: length_doomed)
  with len have "length (filter (\<lambda>n. n \<notin> set ?old) ?L) + 1 = min (length ?L) (max 1 m - 1) + 1"
    by arith
  with rotating_new_clean [OF assms, of m] show ?thesis by simp
qed

text \<open>C1 at the example: three logs and \<open>max = 2\<close> leave two.\<close>

theorem rotating_new_count_witness:
  "length (log_names [''logs''] ''app'' (fsys (snd (rotating_new 2 [''logs''] ''app'' ex_now ex_world)))) = 2"
proof -
  have wf: "wf_fs (fsys ex_world)"
    by (simp add: ex_world_def wf_fs_def is_dir_def)
  have L: "log_names [''logs''] ''app'' (fsys ex_world) =
      [''app.2024-01-02T00:00:00'', ''app.2024-01-01T00:00:00'', ''app.2024-01-03T00:00:00'']"
    by (simp add: ex_world_def log_names_def children_def log_filter_def)
  have nm: "log_file_name ''app'' ex_now = ''app.2024-01-04T00:00:00''"
    by (simp add: log_file_name_def ex_now_def format_ts_def fmt_year_def fmt2_def pad_zero_def
        dec_string.simps digit_char_def)
  have dir: "map_of (fsys ex_world) [''logs''] = Some (Dir True True)"
    by (simp add: ex_world_def)
  have mut: "\<forall>n \<in> set (log_names [''logs''] ''app'' (fsys ex_world)).
      \<forall>c. map_of (fsys ex_world) ([''logs''] @ [n]) \<noteq> Some (RegFile c True)"
    unfolding L by (simp add: ex_world_def)
  have fresh: "map_of (fsys ex_world) ([''logs''] @ [log_file_name ''app'' ex_now]) = None"
    by (simp add: nm ex_world_def)
  show ?thesis
    using rotating_new_count [OF wf dir mut fresh, of 2] by (simp add: L)
qed

text \<open>
  C2. Oldest first. Under the hypotheses of C1 the qualifying files afterwards are the
  old ones minus the \<open>n - max + 1\<close> smallest names, plus the new file, and every
  deleted name is smaller than every surviving old name.
\<close>

theorem rotating_new_deletes_oldest:
  assumes wf: "wf_fs (fsys w)"
    and dir: "map_of (fsys w) dir = Some (Dir True True)"
    and mut: "\<forall>n \<in> set (log_names dir pfx (fsys w)). \<forall>c. map_of (fsys w) (dir @ [n]) \<noteq> Some (RegFile c True)"
    and fresh: "map_of (fsys w) (dir @ [log_file_name pfx now]) = None"
  shows "set (log_names dir pfx (fsys (snd (rotating_new m dir pfx now w)))) =
           set (log_names dir pfx (fsys w)) - set (doomed (max 1 m) (log_names dir pfx (fsys w)))
             \<union> {log_file_name pfx now}
         \<and> (\<forall>x \<in> set (doomed (max 1 m) (log_names dir pfx (fsys w))).
              \<forall>y \<in> set (log_names dir pfx (fsys w)) - set (doomed (max 1 m) (log_names dir pfx (fsys w))). x < y)"
proof
  show "set (log_names dir pfx (fsys (snd (rotating_new m dir pfx now w)))) =
      set (log_names dir pfx (fsys w)) - set (doomed (max 1 m) (log_names dir pfx (fsys w)))
        \<union> {log_file_name pfx now}"
    using rotating_new_clean(2) [OF assms, of m] by auto
  show "\<forall>x \<in> set (doomed (max 1 m) (log_names dir pfx (fsys w))).
      \<forall>y \<in> set (log_names dir pfx (fsys w)) - set (doomed (max 1 m) (log_names dir pfx (fsys w))). x < y"
    using doomed_oldest [OF distinct_log_names [OF wf]] by blast
qed

text \<open>C2 at the example: the logs of January 1 and 2 go, January 3 stays.\<close>

theorem rotating_new_deletes_oldest_witness:
  "set (log_names [''logs''] ''app'' (fsys (snd (rotating_new 2 [''logs''] ''app'' ex_now ex_world)))) =
     {''app.2024-01-03T00:00:00'', ''app.2024-01-04T00:00:00''}"
  using rotating_new_deletes_oldest [OF ex_world_wf ex_world_dir ex_world_mutable ex_world_fresh, of 2]
  unfolding ex_world_names ex_world_doomed ex_now_name by auto

text \<open>
  C3. Nothing else is touched. On any well-formed file system, whether or not the
  directory exists or can be listed, an entry that is neither a qualifying file of the
  log directory nor the new file's path keeps its node: files without the prefix,
  subdirectories and entries elsewhere are never deleted or changed.
\<close>

theorem rotating_new_frame:
  assumes wf: "wf_fs (fsys w)" and q: "map_of (fsys w) q = Some x"
    and notnew: "q \<noteq> dir @ [log_file_name pfx now]"
    and notlog: "\<forall>n \<in> set (log_names dir pfx (fsys w)). q \<noteq> dir @ [n]"
  shows "map_of (fsys (snd (rotating_new m dir pfx now w))) q = Some x"
proof (cases "create_dir_all dir (fsys w)")
  case (Inl e)
  with q show ?thesis by (simp add: rotating_new_unfold)
next
  case (Inr fs1)
  from create_dir_all_preserves [OF Inr] wf q
  have wf1: "wf_fs fs1" and q1: "map_of fs1 q = Some x" by auto
  have d1: "distinct (map fst fs1)" using wf1 by (simp add: wf_fs_def)
  let ?logs = "scan_logs dir pfx fs1"
  let ?ns = "map fst (take (length ?logs + 1 - max 1 m) ?logs)"
  let ?w2 = "fold remove_step (map (\<lambda>n. dir @ [n]) ?ns) (w\<lparr>fsys := fs1\<rparr>)"
  have dns: "distinct ?ns"
    using distinct_scan_logs [OF d1, of dir pfx] by (simp add: take_map [symmetric] distinct_take)
  have notin: "q \<notin> (\<lambda>n. dir @ [n]) ` set (removed_names dir ?ns fs1)"
  proof
    assume "q \<in> (\<lambda>n. dir @ [n]) ` set (removed_names dir ?ns fs1)"
    then obtain e where e: "e \<in> set ?logs" and qe: "q = dir @ [fst e]"
      by (auto simp: removed_names_def dest: in_set_takeD)
    from scan_logs_member [OF d1 e] q1 qe
    have "map_of fs1 (dir @ [fst e]) = Some x" and "is_file x" and "prefix pfx (fst e)"
      by (auto simp: log_filter_def)
    with q qe have "fst e \<in> set (log_names dir pfx (fsys w))"
      using log_names_map_of [OF wf] by auto
    with notlog qe show False by blast
  qed
  have q2: "map_of (fsys ?w2) q = Some x"
    using fold_remove_step [OF dns, of dir "w\<lparr>fsys := fs1\<rparr>"] notin q1
    by (simp add: map_of_filter_notin)
  show ?thesis
  proof (cases "file_create (dir @ [log_file_name pfx now]) (fsys ?w2)")
    case (Inl e)
    with Inr q2 show ?thesis by (simp add: rotating_new_unfold Let_def fs_op_def)
  next
    case (Inr fs3)
    with \<open>create_dir_all dir (fsys w) = Inr fs1\<close> q2 notnew show ?thesis
      by (auto simp: rotating_new_unfold Let_def fs_op_def update_conv' dest!: file_create_Inr)
  qed
qed

text \<open>C3 at the example: with \<open>max = 1\<close> every log goes, \<open>other.txt\<close> stays.\<close>

theorem rotating_new_frame_witness:
  "map_of (fsys (snd (rotating_new 1 [''logs''] ''app'' ex_now ex_world))) [''logs'', ''other.txt''] =
     Some (RegFile [] False)"
proof -
  have q: "map_of (fsys ex_world) [''logs'', ''other.txt''] = Some (RegFile [] False)"
    by (simp add: ex_world_def)
  have nn: "[''logs'', ''other.txt''] \<noteq> [''logs''] @ [log_file_name ''app'' ex_now]"
    by (simp add: ex_now_name)
  have nl: "\<forall>n \<in> set (log_names [''logs''] ''app'' (fsys ex_world)). [''logs'', ''other.txt''] \<noteq> [''logs''] @ [n]"
    by (simp add: ex_world_names)
  show ?thesis using rotating_new_frame [OF ex_world_wf q nn nl, of 1] .
qed

text \<open>
  C4. Construction never panics: whatever the file system, the arguments and the
  clock, \<open>new\<close> returns \<open>Ok\<close> or an I/O error, because \<open>max\<close> is coerced to at
  least 1 before the loop indexes \<open>logs\<close> with \<open>expect\<close>.
\<close>

theorem rotating_new_no_panic: "fst (rotating_new m dir pfx now w) \<noteq> Panic msg"
  by (auto simp: rotating_new_def fs_op_def Let_def prune_fold split: sum.splits)

text \<open>
  C5. A failed deletion is not fatal. With a readable and writable directory and a fresh
  name, construction succeeds even when some doomed files cannot be removed; each such
  file produces one \<open>PermissionDenied\<close> warning, in loop order, and exactly the
  removable doomed files are gone.
\<close>

theorem rotating_new_failed_deletions:
  assumes wf: "wf_fs (fsys w)"
    and dir: "map_of (fsys w) dir = Some (Dir True True)"
    and fresh: "map_of (fsys w) (dir @ [log_file_name pfx now]) = None"
  shows "(\<exists>wr. fst (rotating_new m dir pfx now w) = Ok wr) \<and>
         warnings (snd (rotating_new m dir pfx now w)) =
           warnings w @ map (\<lambda>_. PermissionDenied)
             (filter (\<lambda>n. locked (fsys w) (dir @ [n])) (doomed (max 1 m) (log_names dir pfx (fsys w)))) \<and>
         (\<forall>n \<in> set (doomed (max 1 m) (log_names dir pfx (fsys w))).
            (map_of (fsys (snd (rotating_new m dir pfx now w))) (dir @ [n]) = None) =
            (\<not> locked (fsys w) (dir @ [n])))"
proof -
  let ?fs = "fsys w"
  let ?L = "log_names dir pfx ?fs"
  let ?old = "doomed (max 1 m) ?L"
  let ?nm = "log_file_name pfx now"
  have res: "\<And>n. n \<in> set ?old \<Longrightarrow> remove_file (dir @ [n]) ?fs =
      (if locked ?fs (dir @ [n]) then Inl PermissionDenied else Inr (AList.delete (dir @ [n]) ?fs))"
    using remove_log_result [OF wf dir] doomed_sub by blast
  have rn: "removed_names dir ?old ?fs = filter (\<lambda>n. \<not> locked ?fs (dir @ [n])) ?old"
    unfolding removed_names_def by (rule filter_cong) (simp_all add: res)
  have "removal_errors dir ?old ?fs = concat (map (\<lambda>n. if locked ?fs (dir @ [n]) then [PermissionDenied] else []) ?old)"
    unfolding removal_errors_def by (rule arg_cong [where f = concat], rule map_cong) (simp_all add: res)
  then have re: "removal_errors dir ?old ?fs = map (\<lambda>_. PermissionDenied) (filter (\<lambda>n. locked ?fs (dir @ [n])) ?old)"
    by (simp add: concat_map_singleton_if)
  let ?fs2 = "filter (\<lambda>e. fst e \<notin> (\<lambda>n. dir @ [n]) ` set (filter (\<lambda>n. \<not> locked ?fs (dir @ [n])) ?old)) ?fs"
  have dir2: "map_of ?fs2 dir = Some (Dir True True)"
    using dir by (simp add: map_of_filter_notin)
  have new2: "map_of ?fs2 (dir @ [?nm]) = None"
    using fresh by (simp add: map_of_filter_notin)
  have fc: "file_create (dir @ [?nm]) ?fs2 = Inr (AList.update (dir @ [?nm]) (RegFile [] False) ?fs2)"
    using dir2 new2 by (simp add: file_create_def)
  have st: "rotating_new m dir pfx now w =
      (Ok \<lparr>sink = bufwriter_new (dir @ [?nm])\<rparr>,
       w\<lparr>fsys := AList.update (dir @ [?nm]) (RegFile [] False) ?fs2,
          warnings := warnings w @ map (\<lambda>_. PermissionDenied) (filter (\<lambda>n. locked ?fs (dir @ [n])) ?old)\<rparr>)"
    using rotating_new_state [OF wf dir, of m pfx now] unfolding Let_def rn re fc by simp
  have gone: "(map_of (AList.update (dir @ [?nm]) (RegFile [] False) ?fs2) (dir @ [n]) = None) = (\<not> locked ?fs (dir @ [n]))"
    if n: "n \<in> set ?old" for n
  proof -
    from n have "n \<in> set ?L" using doomed_sub by blast
    then have ex: "map_of ?fs (dir @ [n]) \<noteq> None" using log_names_map_of [OF wf] by auto
    with fresh have "n \<noteq> ?nm" by auto
    with ex n show ?thesis by (simp add: update_conv' map_of_filter_notin)
  qed
  show ?thesis using st gone by simp
qed

text \<open>C5 at an example whose oldest log is immutable.\<close>

theorem rotating_new_failed_deletions_witness:
  "warnings (snd (rotating_new 2 [''logs''] ''app'' ex_now ex_locked)) = [PermissionDenied] \<and>
   map_of (fsys (snd (rotating_new 2 [''logs''] ''app'' ex_now ex_locked))) [''logs'', ''app.2024-01-01T00:00:00''] \<noteq> None \<and>
   map_of (fsys (snd (rotating_new 2 [''logs''] ''app'' ex_now ex_locked))) [''logs'', ''app.2024-01-02T00:00:00''] = None"
proof -
  have wf: "wf_fs (fsys ex_locked)" by (simp add: ex_locked_def wf_fs_def is_dir_def)
  have dir: "map_of (fsys ex_locked) [''logs''] = Some (Dir True True)" by (simp add: ex_locked_def)
  have fresh: "map_of (fsys ex_locked) ([''logs''] @ [log_file_name ''app'' ex_now]) = None"
    by (simp add: ex_now_name ex_locked_def)
  have L: "log_names [''logs''] ''app'' (fsys ex_locked) =
     [''app.2024-01-02T00:00:00'', ''app.2024-01-01T00:00:00'', ''app.2024-01-03T00:00:00'']"
    by (simp add: ex_locked_def log_names_def children_def log_filter_def)
  show ?thesis
    using rotating_new_failed_deletions [OF wf dir fresh, of 2]
    unfolding L ex_world_doomed by (simp add: locked_def ex_locked_def)
qed

text \<open>
  C6. The directory scan. The scan is sorted by name, has no duplicate name, and holds
  exactly the regular files directly in the directory whose name starts with the
  prefix; when the directory is missing, not a directory or unreadable the scan is
  empty (the error is dropped).
\<close>

theorem scan_logs_spec:
  assumes "wf_fs fs"
  shows "sorted (map fst (scan_logs dir pfx fs)) \<and> distinct (map fst (scan_logs dir pfx fs)) \<and>
         set (scan_logs dir pfx fs) =
           (if \<exists>wr. map_of fs dir = Some (Dir True wr)
            then {(n, x). map_of fs (dir @ [n]) = Some x \<and> is_file x \<and> prefix pfx n} else {})"
proof -
  have d: "distinct (map fst fs)" using assms by (simp add: wf_fs_def)
  have sorted: "sorted (map fst (scan_logs dir pfx fs))"
    by (simp add: scan_logs_def split: sum.splits)
  have set: "set (scan_logs dir pfx fs) =
           (if \<exists>wr. map_of fs dir = Some (Dir True wr)
            then {(n, x). map_of fs (dir @ [n]) = Some x \<and> is_file x \<and> prefix pfx n} else {})"
  proof (cases "\<exists>wr. map_of fs dir = Some (Dir True wr)")
    case True
    then obtain wr where "map_of fs dir = Some (Dir True wr)" by blast
    then show ?thesis
      by (auto simp: scan_logs_readable children_map_of [OF d] log_filter_def)
  next
    case False
    then have "\<exists>e. read_dir dir fs = Inl e"
      by (auto simp: read_dir_def split: option.splits node.splits)
    with False show ?thesis by (auto simp: scan_logs_def)
  qed
  show ?thesis using sorted distinct_scan_logs [OF d] set by blast
qed

text \<open>C6 at the example.\<close>

theorem scan_logs_spec_witness:
  "sorted (map fst (scan_logs [''logs''] ''app'' (fsys ex_world))) \<and>
   (''app.2024-01-01T00:00:00'', RegFile [] False) \<in> set (scan_logs [''logs''] ''app'' (fsys ex_world)) \<and>
   (''other.txt'', RegFile [] False) \<notin> set (scan_logs [''logs''] ''app'' (fsys ex_world))"
proof -
  have spec: "sorted (map fst (scan_logs [''logs''] ''app'' (fsys ex_world))) \<and>
      set (scan_logs [''logs''] ''app'' (fsys ex_world)) =
        {(n, x). map_of (fsys ex_world) ([''logs''] @ [n]) = Some x \<and> is_file x \<and> prefix ''app'' n}"
    using scan_logs_spec [OF ex_world_wf, of "[''logs'']" "''app''"] ex_world_dir by auto
  then show ?thesis by (simp add: ex_world_def)
qed

text \<open>
  C7. Names order like times. For clock readings chrono renders with a four-digit year,
  the log file names compare lexicographically exactly as the readings compare
  chronologically, so sorting by name sorts by creation time.
\<close>

theorem log_file_name_less:
  "valid_datetime a \<Longrightarrow> valid_datetime b \<Longrightarrow>
     (log_file_name pfx a < log_file_name pfx b) = (dt_key a < dt_key b)"
  by (simp add: log_file_name_def less_list_same_prefix format_ts_less)

text \<open>C7 across a year boundary.\<close>

theorem log_file_name_less_witness:
  "log_file_name ''app'' \<lparr>dt_year = 2024, dt_month = 12, dt_day = 31, dt_hour = 23, dt_minute = 59, dt_second = 59\<rparr>
     < log_file_name ''app'' \<lparr>dt_year = 2025, dt_month = 1, dt_day = 1, dt_hour = 0, dt_minute = 0, dt_second = 0\<rparr>"
  using log_file_name_less [of "\<lparr>dt_year = 2024, dt_month = 12, dt_day = 31, dt_hour = 23, dt_minute = 59, dt_second = 59\<rparr>"
      "\<lparr>dt_year = 2025, dt_month = 1, dt_day = 1, dt_hour = 0, dt_minute = 0, dt_second = 0\<rparr>" "''app''"]
  by (simp add: valid_datetime_def dt_key_def)

text \<open>
  C8. A directory that cannot be created is an error: construction returns that error
  and changes nothing.
\<close>

theorem rotating_new_dir_error:
  "create_dir_all dir (fsys w) = Inl e \<Longrightarrow> rotating_new m dir pfx now w = (Err e, w)"
  by (simp add: rotating_new_unfold)

text \<open>C8 when the log directory path is a regular file.\<close>

theorem rotating_new_dir_error_witness:
  "rotating_new 2 [''logs''] ''app'' ex_now ex_file_dir = (Err AlreadyExists, ex_file_dir)"
proof -
  have "create_dir_all [''logs''] (fsys ex_file_dir) = Inl AlreadyExists"
    by (simp add: ex_file_dir_def create_dir_all.simps mkdir_def is_dir_def)
  then show ?thesis by (rule rotating_new_dir_error)
qed

text \<open>
  C9. A new file that cannot be created is an error, after the pruning: when the name
  is taken by a directory, construction fails with \<open>IsADirectory\<close> and the doomed
  logs are already gone (no rollback).
\<close>

theorem rotating_new_create_error:
  assumes wf: "wf_fs (fsys w)"
    and dir: "map_of (fsys w) dir = Some (Dir True True)"
    and mut: "\<forall>n \<in> set (log_names dir pfx (fsys w)). \<forall>c. map_of (fsys w) (dir @ [n]) \<noteq> Some (RegFile c True)"
    and taken: "map_of (fsys w) (dir @ [log_file_name pfx now]) = Some (Dir r' w')"
  shows "fst (rotating_new m dir pfx now w) = Err IsADirectory \<and>
         log_names dir pfx (fsys (snd (rotating_new m dir pfx now w))) =
           filter (\<lambda>n. n \<notin> set (doomed (max 1 m) (log_names dir pfx (fsys w)))) (log_names dir pfx (fsys w))"
proof -
  let ?fs = "fsys w"
  let ?L = "log_names dir pfx ?fs"
  let ?old = "doomed (max 1 m) ?L"
  let ?nm = "log_file_name pfx now"
  let ?fs2 = "filter (\<lambda>e. fst e \<notin> (\<lambda>n. dir @ [n]) ` set ?old) ?fs"
  have rn: "removed_names dir ?old ?fs = ?old" and re: "removal_errors dir ?old ?fs = []"
    using removed_all [OF wf dir mut doomed_sub] by simp_all
  have "?nm \<notin> set ?L" using taken log_names_map_of [OF wf] by auto
  then have "?nm \<notin> set ?old" using doomed_sub by blast
  then have taken2: "map_of ?fs2 (dir @ [?nm]) = Some (Dir r' w')"
    using taken by (simp add: map_of_filter_notin)
  have dir2: "map_of ?fs2 dir = Some (Dir True True)"
    using dir by (simp add: map_of_filter_notin)
  have fc: "file_create (dir @ [?nm]) ?fs2 = Inl IsADirectory"
    using dir2 taken2 by (simp add: file_create_def)
  have st: "rotating_new m dir pfx now w = (Err IsADirectory, w\<lparr>fsys := ?fs2, warnings := warnings w\<rparr>)"
    using rotating_new_state [OF wf dir, of m pfx now] unfolding Let_def rn re fc by simp
  then show ?thesis by (simp add: log_names_filter)
qed

text \<open>C9 at an example.\<close>

theorem rotating_new_create_error_witness:
  "fst (rotating_new 1 [''logs''] ''app'' ex_now ex_taken) = Err IsADirectory \<and>
   log_names [''logs''] ''app'' (fsys (snd (rotating_new 1 [''logs''] ''app'' ex_now ex_taken))) = []"
proof -
  have wf: "wf_fs (fsys ex_taken)" by (simp add: ex_taken_def wf_fs_def is_dir_def)
  have dir: "map_of (fsys ex_taken) [''logs''] = Some (Dir True True)" by (simp add: ex_taken_def)
  have L: "log_names [''logs''] ''app'' (fsys ex_taken) = [''app.2024-01-01T00:00:00'']"
    by (simp add: ex_taken_def log_names_def children_def log_filter_def)
  have mut: "\<forall>n \<in> set (log_names [''logs''] ''app'' (fsys ex_taken)).
      \<forall>c. map_of (fsys ex_taken) ([''logs''] @ [n]) \<noteq> Some (RegFile c True)"
    unfolding L by (simp add: ex_taken_def)
  have taken: "map_of (fsys ex_taken) ([''logs''] @ [log_file_name ''app'' ex_now]) = Some (Dir True True)"
    by (simp add: ex_now_name ex_taken_def)
  show ?thesis
    using rotating_new_create_error [OF wf dir mut taken, of 1]
    by (simp add: L doomed_def)
qed

text \<open>
  C10. \<open>max = 0\<close> behaves as \<open>max = 1\<close>.
\<close>

theorem rotating_new_max_zero: "rotating_new 0 dir pfx now w = rotating_new 1 dir pfx now w"
  by (simp add: rotating_new_def)

text \<open>
  The example of spec section 8 (three logs, \<open>max = 2\<close>), evaluated: the code deletes
  the logs of January 1 and January 2, not only the oldest, as C1's count
  \<open>min(3, 1) + 1 = 2\<close> says; January 3 and the new file remain.
\<close>

lemma spec_example_deletes_two:
  "log_names [''logs''] ''app'' (fsys (snd (rotating_new 2 [''logs''] ''app'' ex_now ex_world))) =
     [''app.2024-01-03T00:00:00'', ''app.2024-01-04T00:00:00'']"
  by (simp add: rotating_new_def ex_world_def ex_now_name create_dir_all.simps mkdir_def is_dir_def
      fs_op_def scan_logs_def read_dir_def children_def log_filter_def prune_def remove_step_def
      remove_file_def file_create_def log_names_def Let_def)

text \<open>
  C12. A directory that can be written but not listed: \<open>WalkDir\<close>'s error is
  dropped by \<open>flat_map(|it| it.ok())\<close>, so nothing is pruned however many logs
  there are; construction succeeds, creates the new file and leaves every old log,
  so the directory holds \<open>n + 1\<close> qualifying files whatever \<open>max\<close> is.
\<close>

theorem rotating_new_unreadable_keeps_all:
  assumes wf: "wf_fs (fsys w)"
    and dir: "map_of (fsys w) dir = Some (Dir False True)"
    and fresh: "map_of (fsys w) (dir @ [log_file_name pfx now]) = None"
  shows "rotating_new m dir pfx now w =
           (Ok \<lparr>sink = bufwriter_new (dir @ [log_file_name pfx now])\<rparr>,
            w\<lparr>fsys := AList.update (dir @ [log_file_name pfx now]) (RegFile [] False) (fsys w)\<rparr>) \<and>
         log_names dir pfx (fsys (snd (rotating_new m dir pfx now w))) =
           log_names dir pfx (fsys w) @ [log_file_name pfx now]"
proof -
  have isd: "is_dir (fsys w) dir" using dir by (simp add: is_dir_def)
  have scan: "scan_logs dir pfx (fsys w) = []" using dir by (simp add: scan_logs_def read_dir_def)
  have fc: "file_create (dir @ [log_file_name pfx now]) (fsys w) =
      Inr (AList.update (dir @ [log_file_name pfx now]) (RegFile [] False) (fsys w))"
    using dir fresh by (simp add: file_create_def)
  have st: "rotating_new m dir pfx now w =
           (Ok \<lparr>sink = bufwriter_new (dir @ [log_file_name pfx now])\<rparr>,
            w\<lparr>fsys := AList.update (dir @ [log_file_name pfx now]) (RegFile [] False) (fsys w)\<rparr>)"
    unfolding rotating_new_existing_dir [OF wf isd] Let_def scan by (simp add: fs_op_def fc)
  with fresh show ?thesis by (simp add: log_names_update_new)
qed

text \<open>C12 at the unreadable example: three logs and \<open>max = 2\<close> leave four.\<close>

lemma rotating_new_unreadable_keeps_all_witness:
  "length (log_names [''logs''] ''app'' (fsys (snd (rotating_new 2 [''logs''] ''app'' ex_now ex_unreadable)))) = 4"
proof -
  have wf: "wf_fs (fsys ex_unreadable)" by (simp add: ex_unreadable_def wf_fs_def is_dir_def)
  have dir: "map_of (fsys ex_unreadable) [''logs''] = Some (Dir False True)" by (simp add: ex_unreadable_def)
  have fresh: "map_of (fsys ex_unreadable) ([''logs''] @ [log_file_name ''app'' ex_now]) = None"
    by (simp add: ex_now_name ex_unreadable_def)
  have L: "length (log_names [''logs''] ''app'' (fsys ex_unreadable)) = 3"
    by (simp add: ex_unreadable_def log_names_def children_def log_filter_def)
  from conjunct2 [OF rotating_new_unreadable_keeps_all [OF wf dir fresh, of 2]] L show ?thesis by simp
qed

end
