(* ===== verification/Style.thy ===== *)
theory Style
  imports Decimal
begin

text \<open>
  The styling collaborator, the \<open>console\<close> crate: \<open>style(x).dim()\<close>,
  \<open>.magenta()\<close> and the like build a \<open>StyledObject\<close> whose \<open>Display\<close>
  writes, when colours are enabled, the foreground code \<open>ESC[3cm\<close>, one code
  \<open>ESC[am\<close> per attribute, the value, and the reset \<open>ESC[0m\<close> if it wrote
  any code; when colours are disabled it writes the value alone. Whether colours
  are enabled is \<open>console::colors_enabled()\<close>, a property of the process's
  standard output, given here as the flag \<open>on\<close>. \<open>strip_ansi\<close> removes
  such codes again; it states what "the same text without styling" means.
\<close>

datatype color = Black | Red | Green | Yellow | Blue | Magenta | Cyan | White

datatype attribute = Bold | Dim | Italic | Underlined | Blink | BlinkFast | Reverse | Hidden | StrikeThrough

record style =
  st_fg :: "color option"
  st_attrs :: "attribute list"

primrec color_num :: "color \<Rightarrow> nat" where
  "color_num Black = 0"
| "color_num Red = 1"
| "color_num Green = 2"
| "color_num Yellow = 3"
| "color_num Blue = 4"
| "color_num Magenta = 5"
| "color_num Cyan = 6"
| "color_num White = 7"

primrec attr_num :: "attribute \<Rightarrow> nat" where
  "attr_num Bold = 1"
| "attr_num Dim = 2"
| "attr_num Italic = 3"
| "attr_num Underlined = 4"
| "attr_num Blink = 5"
| "attr_num BlinkFast = 6"
| "attr_num Reverse = 7"
| "attr_num Hidden = 8"
| "attr_num StrikeThrough = 9"

definition esc :: char where
  "esc = CHR 0x1B"

text \<open>\<open>"\x1b[{}m"\<close>\<close>

definition esc_code :: "nat \<Rightarrow> string" where
  "esc_code n = esc # CHR ''['' # dec_string n @ ''m''"

text \<open>\<open>style(x)\<close> with one foreground colour, and with one attribute.\<close>

definition fg_style :: "color \<Rightarrow> style" where
  "fg_style c = \<lparr>st_fg = Some c, st_attrs = []\<rparr>"

definition attr_style :: "attribute \<Rightarrow> style" where
  "attr_style a = \<lparr>st_fg = None, st_attrs = [a]\<rparr>"

text \<open>\<open>impl Display for StyledObject\<close>, for a value already rendered to \<open>s\<close>.\<close>

definition styled :: "bool \<Rightarrow> style \<Rightarrow> string \<Rightarrow> string" where
  "styled on st s =
     (if on then
        (case st_fg st of Some c \<Rightarrow> esc_code (color_num c + 30) | None \<Rightarrow> []) @
        concat (map (\<lambda>a. esc_code (attr_num a)) (st_attrs st)) @ s @
        (if st_fg st \<noteq> None \<or> st_attrs st \<noteq> [] then esc_code 0 else [])
      else s)"

text \<open>Removing escape sequences \<open>ESC [ digits m\<close>.\<close>

function strip_ansi :: "string \<Rightarrow> string" where
  "strip_ansi [] = []"
| "strip_ansi (c # cs) =
     (if c = esc \<and> cs \<noteq> [] \<and> hd cs = CHR ''[''
      then strip_ansi (drop 1 (dropWhile (\<lambda>d. d \<noteq> CHR ''m'') cs))
      else c # strip_ansi cs)"
  by pat_completeness auto

termination
proof (relation "measure length")
  fix c and cs :: string
  have "length (dropWhile (\<lambda>d. d \<noteq> CHR ''m'') cs) \<le> length cs"
    by (rule length_dropWhile_le)
  then show "(drop 1 (dropWhile (\<lambda>d. d \<noteq> CHR ''m'') cs), c # cs) \<in> measure length"
    by simp
qed auto

subsection \<open>Lemmas\<close>

lemma esc_not_digit [simp]: "d < 10 \<Longrightarrow> digit_char d \<noteq> esc"
  using of_char_digit_char [of d] by (auto simp: esc_def)

lemma digit_not_m [simp]: "d < 10 \<Longrightarrow> digit_char d \<noteq> CHR ''m''"
  using of_char_digit_char [of d] by auto

lemma set_dec_string: "set (dec_string n) \<subseteq> digit_char ` {0..<10}"
proof (induction n rule: dec_string.induct)
  case (1 n)
  then show ?case by (subst dec_string.simps) auto
qed

lemma dec_string_no_m: "CHR ''m'' \<notin> set (dec_string n)"
  using set_dec_string [of n] digit_not_m by fastforce

lemma dec_string_no_esc: "esc \<notin> set (dec_string n)"
  using set_dec_string [of n] esc_not_digit by fastforce

lemma strip_ansi_esc_code [simp]: "strip_ansi (esc_code n @ ys) = strip_ansi ys"
proof -
  have "dropWhile (\<lambda>d. d \<noteq> CHR ''m'') (CHR ''['' # dec_string n @ ''m'' @ ys) = ''m'' @ ys"
    using dec_string_no_m [of n] by (simp add: dropWhile_append3) blast
  then show ?thesis by (simp add: esc_code_def)
qed

lemma strip_ansi_plain [simp]: "esc \<notin> set xs \<Longrightarrow> strip_ansi (xs @ ys) = xs @ strip_ansi ys"
  by (induction xs) auto

lemma strip_ansi_codes [simp]:
  "strip_ansi (concat (map (\<lambda>a. esc_code (f a)) as) @ ys) = strip_ansi ys"
  by (induction as) auto

lemma strip_ansi_styled [simp]:
  "esc \<notin> set s \<Longrightarrow> strip_ansi (styled on st s @ ys) = s @ strip_ansi ys"
  by (cases "st_fg st") (auto simp: styled_def)

lemma styled_off [simp]: "styled False st s = s"
  by (simp add: styled_def)

lemma nl_not_digit [simp]: "d < 10 \<Longrightarrow> digit_char d \<noteq> CHR ''\<newline>''"
  using of_char_digit_char [of d] by auto

lemma nl_notin_esc_code [simp]: "CHR ''\<newline>'' \<notin> set (esc_code n)"
  using set_dec_string [of n] nl_not_digit by (fastforce simp: esc_code_def esc_def)

lemma nl_in_styled [simp]: "(CHR ''\<newline>'' \<in> set (styled on st s)) = (CHR ''\<newline>'' \<in> set s)"
  by (cases "st_fg st") (auto simp: styled_def)

end
