(* ===== verification/Formatter.thy ===== *)
theory Formatter
  imports Style
begin

text \<open>
  \<open>SourceFormatter::format_event\<close> (src/src/format.rs). The log subsystem's
  side of the call is an input: the event's metadata (level, optional file,
  optional line), the span scope from root to leaf, each span with the
  \<open>FormattedFields\<close> extension the \<open>fmt\<close> layer cached for it
  (\<open>None\<close> when it is missing), the chunks the field formatter writes for the
  event's own fields, and the RFC 2822 time string. The destination is any
  \<open>fmt::Write\<close>: a state \<open>'w\<close> and its \<open>write_str\<close>, which may refuse
  (\<open>fmt::Error\<close>). A \<open>write!\<close> is the sequence of \<open>write_str\<close> calls
  \<open>core::fmt::write\<close> makes for its pieces and arguments, stopping at the first
  error as \<open>?\<close> does.
\<close>

datatype level = TRACE | DEBUG | INFO | WARN | ERROR

text \<open>\<open>impl Display for tracing::Level\<close>\<close>

primrec level_str :: "level \<Rightarrow> string" where
  "level_str TRACE = ''TRACE''"
| "level_str DEBUG = ''DEBUG''"
| "level_str INFO = ''INFO''"
| "level_str WARN = ''WARN''"
| "level_str ERROR = ''ERROR''"

text \<open>The \<open>match *metadata.level()\<close> of lines 30-36.\<close>

primrec level_color :: "level \<Rightarrow> color" where
  "level_color TRACE = Magenta"
| "level_color DEBUG = Blue"
| "level_color INFO = Green"
| "level_color WARN = Yellow"
| "level_color ERROR = Red"

record metadata =
  md_level :: level
  md_file :: "string option"
  md_line :: "32 word option"

record span_ref =
  span_name :: string
  span_fields :: "string option"

record event =
  ev_meta :: metadata
  ev_fields :: "string list"

datatype fmt_error = FmtError

type_synonym 'w sink = "'w \<Rightarrow> string \<Rightarrow> 'w option"
type_synonym 'w fmt_out = "(unit, fmt_error) outcome \<times> 'w"

text \<open>\<open>fmt::Write::write_str\<close> on the destination.\<close>

definition write_str :: "'w sink \<Rightarrow> string \<Rightarrow> 'w \<Rightarrow> 'w fmt_out" where
  "write_str ws s w = (case ws w s of None \<Rightarrow> (Err FmtError, w) | Some w' \<Rightarrow> (Ok (), w'))"

text \<open>A sequence of \<open>write_str\<close> calls under \<open>?\<close>.\<close>

fun write_strs :: "'w sink \<Rightarrow> string list \<Rightarrow> 'w \<Rightarrow> 'w fmt_out" where
  "write_strs ws [] w = (Ok (), w)"
| "write_strs ws (s # ss) w = bind_out (write_str ws s w) (\<lambda>_ w'. write_strs ws ss w')"

text \<open>\<open>format!("[{}:{}]", file.unwrap_or_default(), line.unwrap_or_default())\<close>\<close>

definition source_tag :: "metadata \<Rightarrow> string" where
  "source_tag md =
     ''['' @ (case md_file md of None \<Rightarrow> [] | Some f \<Rightarrow> f) @ '':'' @
     dec_string (case md_line md of None \<Rightarrow> 0 | Some l \<Rightarrow> unat l) @ '']''"

text \<open>The \<open>message\<close> string of lines 27-43; \<open>on\<close> is \<open>console::colors_enabled()\<close>.\<close>

definition header :: "bool \<Rightarrow> string \<Rightarrow> metadata \<Rightarrow> string" where
  "header on time_now md =
     styled on (attr_style Dim) time_now @ '' '' @
     styled on (fg_style (level_color (md_level md))) (level_str (md_level md)) @ '' '' @
     styled on (fg_style Cyan) (source_tag md)"

text \<open>The loop of lines 49-69 over \<open>scope.from_root()\<close>.\<close>

fun render_spans :: "'w sink \<Rightarrow> span_ref list \<Rightarrow> 'w \<Rightarrow> 'w fmt_out" where
  "render_spans ws [] w = (Ok (), w)"
| "render_spans ws (sp # sps) w =
     bind_out (write_str ws (span_name sp) w) (\<lambda>_ w1.
       case span_fields sp of
         None \<Rightarrow> (Panic ''will never be `None`'', w1)
       | Some f \<Rightarrow>
           bind_out (if f \<noteq> [] then write_strs ws [''{'', f, ''}''] w1 else (Ok (), w1)) (\<lambda>_ w2.
             bind_out (write_str ws '': '' w2) (\<lambda>_ w3. render_spans ws sps w3)))"

definition format_event ::
  "'w sink \<Rightarrow> bool \<Rightarrow> string \<Rightarrow> event \<Rightarrow> span_ref list \<Rightarrow> 'w \<Rightarrow> 'w fmt_out" where
  "format_event ws on time_now ev scope w =
     bind_out (write_strs ws [header on time_now (ev_meta ev), '': ''] w) (\<lambda>_ w1.
       bind_out (render_spans ws scope w1) (\<lambda>_ w2.
         bind_out (write_strs ws (ev_fields ev) w2) (\<lambda>_ w3.
           write_str ws ''\<newline>'' w3)))"

subsection \<open>Destinations\<close>

text \<open>
  The \<open>String\<close> buffer the \<open>fmt\<close> layer formats into (its \<open>write_str\<close>
  never fails), a buffer of bounded capacity that refuses a write that does not
  fit, and the class of destinations that append what they accept.
\<close>

definition string_sink :: "string sink" where
  "string_sink s x = Some (s @ x)"

definition bounded_sink :: "nat \<Rightarrow> string sink" where
  "bounded_sink cap s x = (if length (s @ x) \<le> cap then Some (s @ x) else None)"

definition append_sink :: "string sink \<Rightarrow> bool" where
  "append_sink ws \<longleftrightarrow> (\<forall>s x s'. ws s x = Some s' \<longrightarrow> s' = s @ x)"

subsection \<open>The line the formatter promises\<close>

definition span_text :: "span_ref \<Rightarrow> string" where
  "span_text sp =
     span_name sp @ (case span_fields sp of Some f \<Rightarrow> if f \<noteq> [] then ''{'' @ f @ ''}'' else [] | None \<Rightarrow> []) @
     '': ''"

definition event_line :: "bool \<Rightarrow> string \<Rightarrow> event \<Rightarrow> span_ref list \<Rightarrow> string" where
  "event_line on time_now ev scope =
     header on time_now (ev_meta ev) @ '': '' @ concat (map span_text scope) @
     concat (ev_fields ev) @ ''\<newline>''"

definition fields_cached :: "span_ref list \<Rightarrow> bool" where
  "fields_cached scope \<longleftrightarrow> (\<forall>sp \<in> set scope. span_fields sp \<noteq> None)"

subsection \<open>Example inputs\<close>

text \<open>The event of the doc comment of \<open>SourceFormatter\<close> and of spec section 8.\<close>

definition ex_time :: string where
  "ex_time = ''Wed, 12 Nov 1997 09:55:06 -0600''"

definition ex_event :: event where
  "ex_event = \<lparr>ev_meta = \<lparr>md_level = INFO, md_file = Some ''main.rs'', md_line = Some 74\<rparr>,
               ev_fields = [''Hello World!'']\<rparr>"

definition ex_spans :: "span_ref list" where
  "ex_spans = [\<lparr>span_name = ''A'', span_fields = Some ''x=1''\<rparr>, \<lparr>span_name = ''B'', span_fields = Some []\<rparr>]"

definition ex_multiline :: event where
  "ex_multiline = \<lparr>ev_meta = \<lparr>md_level = ERROR, md_file = Some ''a.rs'', md_line = Some 1\<rparr>,
                   ev_fields = [''first'', '' line\<newline>second line'']\<rparr>"

definition ex_missing :: "span_ref list" where
  "ex_missing = [\<lparr>span_name = ''A'', span_fields = Some ''x=1''\<rparr>, \<lparr>span_name = ''C'', span_fields = None\<rparr>,
                 \<lparr>span_name = ''B'', span_fields = Some []\<rparr>]"

definition ex_bare :: event where
  "ex_bare = \<lparr>ev_meta = \<lparr>md_level = WARN, md_file = None, md_line = None\<rparr>, ev_fields = [''m'']\<rparr>"

text \<open>
  \<open>emits r w s\<close>: a computation that started on the destination contents
  \<open>w\<close> either succeeded having appended exactly \<open>s\<close>, or failed with
  \<open>fmt::Error\<close> having appended a prefix of \<open>s\<close>; it did not panic.
\<close>

definition emits :: "(unit, fmt_error) outcome \<times> string \<Rightarrow> string \<Rightarrow> string \<Rightarrow> bool" where
  "emits c w s \<longleftrightarrow>
     (\<exists>p. snd c = w @ p \<and> (fst c = Ok () \<and> p = s \<or> fst c = Err FmtError \<and> prefix p s))"

definition no_panic :: "(unit, fmt_error) outcome \<times> 'w \<Rightarrow> bool" where
  "no_panic c \<longleftrightarrow> fst c = Ok () \<or> fst c = Err FmtError"

subsection \<open>Lemmas\<close>

lemma fields_cached_simps [simp]:
  "fields_cached []"
  "fields_cached (sp # sc) \<longleftrightarrow> span_fields sp \<noteq> None \<and> fields_cached sc"
  "fields_cached (xs @ ys) \<longleftrightarrow> fields_cached xs \<and> fields_cached ys"
  by (auto simp: fields_cached_def)

lemma write_str_string [simp]: "write_str string_sink s w = (Ok (), w @ s)"
  by (simp add: write_str_def string_sink_def)

lemma write_strs_string [simp]: "write_strs string_sink ss w = (Ok (), w @ concat ss)"
  by (induction ss arbitrary: w) auto

lemma render_spans_string:
  "fields_cached sc \<Longrightarrow> render_spans string_sink sc w = (Ok (), w @ concat (map span_text sc))"
  by (induction sc arbitrary: w) (auto simp: span_text_def)

lemma render_spans_string_panic:
  assumes "fields_cached pre" and "span_fields sp = None"
  shows "render_spans string_sink (pre @ sp # post) w =
           (Panic ''will never be `None`'', w @ concat (map span_text pre) @ span_name sp)"
  using assms by (induction pre arbitrary: w) (auto simp: span_text_def)

lemma format_event_string:
  "fields_cached sc \<Longrightarrow> format_event string_sink on t ev sc w = (Ok (), w @ event_line on t ev sc)"
  by (simp add: format_event_def render_spans_string event_line_def)

subsubsection \<open>No panic on any destination\<close>

lemma no_panic_simps [simp]:
  "no_panic (Ok (), w)" "no_panic (Err FmtError, w)" "\<not> no_panic (Panic m, w)"
  by (simp_all add: no_panic_def)

lemma no_panic_write_str [simp]: "no_panic (write_str ws s w)"
  by (simp add: write_str_def split: option.split)

lemma no_panic_bind:
  assumes "no_panic c" and "\<And>w. no_panic (f () w)"
  shows "no_panic (bind_out c f)"
proof (cases c)
  case (Pair r w')
  with assms show ?thesis by (cases r) (auto simp: no_panic_def)
qed

lemma no_panic_write_strs [simp]: "no_panic (write_strs ws ss w)"
  by (induction ss arbitrary: w) (auto intro!: no_panic_bind)

lemma no_panic_render_spans: "fields_cached sc \<Longrightarrow> no_panic (render_spans ws sc w)"
  by (induction sc arbitrary: w) (auto intro!: no_panic_bind split: option.split)

lemma no_panic_format_event: "fields_cached sc \<Longrightarrow> no_panic (format_event ws on t ev sc w)"
  unfolding format_event_def by (auto intro!: no_panic_bind no_panic_render_spans)

subsubsection \<open>Appending destinations\<close>

lemma emits_write_str: "append_sink ws \<Longrightarrow> emits (write_str ws s w) w s"
  by (cases "ws w s") (auto simp: emits_def write_str_def append_sink_def)

lemma emits_bind:
  assumes c: "emits c w s"
    and f: "fst c = Ok () \<Longrightarrow> emits (f () (w @ s)) (w @ s) u"
  shows "emits (bind_out c f) w (s @ u)"
proof -
  obtain r w' where rc: "c = (r, w')" by (cases c)
  from c rc obtain p where w': "w' = w @ p"
    and alt: "r = Ok () \<and> p = s \<or> r = Err FmtError \<and> prefix p s"
    by (auto simp: emits_def)
  from alt show ?thesis
  proof
    assume ok: "r = Ok () \<and> p = s"
    with f rc w' obtain q where "snd (f () (w @ s)) = w @ s @ q"
      and "fst (f () (w @ s)) = Ok () \<and> q = u \<or> fst (f () (w @ s)) = Err FmtError \<and> prefix q u"
      by (auto simp: emits_def)
    with ok rc w' show ?thesis by (auto simp: emits_def)
  next
    assume "r = Err FmtError \<and> prefix p s"
    with rc w' show ?thesis by (auto simp: emits_def )
  qed
qed

lemma emits_ok: "emits (Ok (), w) w []"
  by (simp add: emits_def)

lemma emits_write_strs: "append_sink ws \<Longrightarrow> emits (write_strs ws ss w) w (concat ss)"
proof (induction ss arbitrary: w)
  case Nil
  then show ?case by (simp add: emits_ok)
next
  case (Cons s ss)
  then show ?case by (auto intro!: emits_bind emits_write_str)
qed

lemma emits_seq:
  "emits c w s \<Longrightarrow> (\<And>w'. emits (f () w') w' u) \<Longrightarrow> emits (bind_out c f) w (s @ u)"
  using emits_bind by blast

lemma emits_seq_eq:
  "emits c w s \<Longrightarrow> (\<And>w'. emits (f () w') w' u) \<Longrightarrow> v = s @ u \<Longrightarrow> emits (bind_out c f) w v"
  using emits_bind by blast

lemma emits_render_spans:
  "append_sink ws \<Longrightarrow> fields_cached sc \<Longrightarrow> emits (render_spans ws sc w) w (concat (map span_text sc))"
proof (induction sc arbitrary: w)
  case Nil
  then show ?case by (simp add: emits_ok)
next
  case (Cons sp sc)
  note ap = Cons.prems(1)
  from Cons.prems(2) obtain f where f: "span_fields sp = Some f" and fc: "fields_cached sc" by auto
  define b where "b = (if f \<noteq> [] then ''{'' @ f @ ''}'' else [])"
  have braces: "emits (if f \<noteq> [] then write_strs ws [''{'', f, ''}''] w1 else (Ok (), w1)) w1 b" for w1
    using emits_write_strs [OF ap, of "[''{'', f, ''}'']" w1] emits_ok [of w1]
    by (simp add: b_def)
  have tail: "emits (bind_out (write_str ws '': '' w2) (\<lambda>_. render_spans ws sc)) w2
                ('': '' @ concat (map span_text sc))" for w2
    by (rule emits_seq, rule emits_write_str [OF ap], rule Cons.IH [OF ap fc])
  have "emits (bind_out (write_str ws (span_name sp) w) (\<lambda>_ w1.
          bind_out (if f \<noteq> [] then write_strs ws [''{'', f, ''}''] w1 else (Ok (), w1)) (\<lambda>_ w2.
            bind_out (write_str ws '': '' w2) (\<lambda>_. render_spans ws sc))))
          w (span_name sp @ b @ '': '' @ concat (map span_text sc))"
    by (rule emits_seq, rule emits_write_str [OF ap], rule emits_seq, rule braces, rule tail)
  moreover have "concat (map span_text (sp # sc)) = span_name sp @ b @ '': '' @ concat (map span_text sc)"
    by (simp add: f span_text_def b_def)
  ultimately show ?case
    unfolding render_spans.simps(2) f option.case(2) by simp
qed

lemma emits_format_event:
  assumes ap: "append_sink ws" and fc: "fields_cached sc"
  shows "emits (format_event ws on t ev sc w) w (event_line on t ev sc)"
proof -
  have head: "emits (write_strs ws [header on t (ev_meta ev), '': ''] w) w (header on t (ev_meta ev) @ '': '')"
    using emits_write_strs [OF ap, of "[header on t (ev_meta ev), '': '']" w] by simp
  have rest: "emits (bind_out (render_spans ws sc w1) (\<lambda>_ w2.
          bind_out (write_strs ws (ev_fields ev) w2) (\<lambda>_. write_str ws ''\<newline>''))) w1
          (concat (map span_text sc) @ concat (ev_fields ev) @ ''\<newline>'')" for w1
    by (rule emits_seq, rule emits_render_spans [OF ap fc],
        rule emits_seq, rule emits_write_strs [OF ap], rule emits_write_str [OF ap])
  show ?thesis
    unfolding format_event_def
    by (rule emits_seq_eq [OF head rest]) (simp add: event_line_def)
qed

subsubsection \<open>Styling and line structure\<close>

lemma strip_ansi_id: "esc \<notin> set xs \<Longrightarrow> strip_ansi xs = xs"
  using strip_ansi_plain [of xs "[]"] by simp

lemma esc_not_printable [simp]:
  "CHR '' '' \<noteq> esc" "CHR '':'' \<noteq> esc" "CHR ''['' \<noteq> esc" "CHR '']'' \<noteq> esc" "CHR ''{'' \<noteq> esc"
  by (simp_all add: esc_def)

lemma esc_notin_level_str [simp]: "esc \<notin> set (level_str l)"
  by (cases l) (simp_all add: esc_def)

lemma strip_ansi_event_line:
  assumes "esc \<notin> set (event_line False t ev sc)"
  shows "strip_ansi (event_line True t ev sc) = event_line False t ev sc"
  using assms by (simp add: event_line_def header_def strip_ansi_id)

lemma nl_notin_level_str [simp]: "CHR ''\<newline>'' \<notin> set (level_str l)"
  by (cases l) simp_all

lemma event_line_nl:
  "event_line on t ev sc =
     (header on t (ev_meta ev) @ '': '' @ concat (map span_text sc) @ concat (ev_fields ev)) @ ''\<newline>''"
  by (simp add: event_line_def)

subsubsection \<open>A buffer of bounded capacity\<close>

lemma write_str_bounded_fits [simp]:
  "length w + length s \<le> cap \<Longrightarrow> write_str (bounded_sink cap) s w = (Ok (), w @ s)"
  by (simp add: write_str_def bounded_sink_def)

lemma write_strs_bounded_fits:
  "length w + length (concat ss) \<le> cap \<Longrightarrow> write_strs (bounded_sink cap) ss w = (Ok (), w @ concat ss)"
  by (induction ss arbitrary: w) auto

lemma render_spans_bounded_fits:
  "fields_cached sc \<Longrightarrow> length w + length (concat (map span_text sc)) \<le> cap \<Longrightarrow>
     render_spans (bounded_sink cap) sc w = (Ok (), w @ concat (map span_text sc))"
  by (induction sc arbitrary: w) (auto simp: span_text_def write_strs_bounded_fits)

lemma format_event_bounded_fits:
  "fields_cached sc \<Longrightarrow> length w + length (event_line on t ev sc) \<le> cap \<Longrightarrow>
     format_event (bounded_sink cap) on t ev sc w = (Ok (), w @ event_line on t ev sc)"
  by (simp add: format_event_def event_line_def write_strs_bounded_fits render_spans_bounded_fits)

lemma bind_out_last:
  assumes "\<And>a s. fst (f a s) = Ok x \<Longrightarrow> P (snd (f a s))" and "fst (bind_out c f) = Ok x"
  shows "P (snd (bind_out c f))"
proof (cases c)
  case (Pair r s)
  with assms show ?thesis by (cases r) auto
qed

lemma write_str_bounded_Ok:
  "fst (write_str (bounded_sink cap) s w) = Ok () \<Longrightarrow> length (snd (write_str (bounded_sink cap) s w)) \<le> cap"
  by (simp add: write_str_def bounded_sink_def split: if_splits)

lemma format_event_bounded_Ok:
  "fst (format_event (bounded_sink cap) on t ev sc w) = Ok () \<Longrightarrow>
     length (snd (format_event (bounded_sink cap) on t ev sc w)) \<le> cap"
  unfolding format_event_def
  by (rule bind_out_last [where P = "\<lambda>w'. length w' \<le> cap"], rule bind_out_last,
      rule bind_out_last, erule write_str_bounded_Ok)

lemma ex_bounded_run:
  "format_event (bounded_sink 55) False ex_time ex_event [] [] =
     (Err FmtError, ''Wed, 12 Nov 1997 09:55:06 -0600 INFO [main.rs:74]: '')"
  by (simp add: format_event_def header_def source_tag_def ex_event_def ex_time_def write_str_def
      bounded_sink_def dec_string.simps digit_char_def)

lemma append_sink_string [simp]: "append_sink string_sink"
  and append_sink_bounded [simp]: "append_sink (bounded_sink cap)"
  by (simp_all add: append_sink_def string_sink_def bounded_sink_def)

subsection \<open>Properties of the formatter\<close>

text \<open>
  C13. With every span's fields cached, \<open>format_event\<close> writes exactly one
  line in the layout of spec section 4.5: the dimmed time, the level styled in its
  colour, the cyan tag \<open>[file:line]\<close> with an empty file name and line 0 for
  missing metadata, \<open>": "\<close>, the span stack from root to leaf, the event's
  fields, and a newline; and it succeeds.
\<close>

theorem format_event_layout:
  assumes "fields_cached sc"
  shows "format_event string_sink on t ev sc w =
    (Ok (), w @ styled on (attr_style Dim) t @ '' '' @
       styled on (fg_style (level_color (md_level (ev_meta ev)))) (level_str (md_level (ev_meta ev))) @ '' '' @
       styled on (fg_style Cyan)
         (''['' @ (case md_file (ev_meta ev) of None \<Rightarrow> [] | Some f \<Rightarrow> f) @ '':'' @
          dec_string (case md_line (ev_meta ev) of None \<Rightarrow> 0 | Some l \<Rightarrow> unat l) @ '']'') @
       '': '' @ concat (map span_text sc) @ concat (ev_fields ev) @ ''\<newline>'')"
  using assms by (simp add: format_event_string event_line_def header_def source_tag_def)

lemma format_event_layout_witness:
  "format_event string_sink False ex_time ex_event ex_spans [] =
     (Ok (), ''Wed, 12 Nov 1997 09:55:06 -0600 INFO [main.rs:74]: A{x=1}: B: Hello World!\<newline>'')"
  using format_event_layout [of ex_spans False ex_time ex_event "[]"]
  by (simp add: ex_spans_def ex_event_def ex_time_def span_text_def dec_string.simps digit_char_def)

text \<open>
  C14. When every span's fields are cached, \<open>format_event\<close> never panics, on
  any destination: it returns \<open>Ok\<close> or the destination's \<open>fmt::Error\<close>.
\<close>

theorem format_event_no_panic:
  "fields_cached sc \<Longrightarrow> fst (format_event ws on t ev sc w) \<in> {Ok (), Err FmtError}"
  using no_panic_format_event [of sc ws on t ev w] by (auto simp: no_panic_def)

lemma format_event_no_panic_witness:
  "fst (format_event (bounded_sink 55) False ex_time ex_event [] []) \<in> {Ok (), Err FmtError}"
  using format_event_no_panic [of "[]" "bounded_sink 55" False ex_time ex_event "[]"] by simp

text \<open>
  C15. A span without its cached \<open>FormattedFields\<close> is the \<open>expect\<close> panic
  "will never be `None`": the spans before it have been written in full, and
  of the offending span only its name.
\<close>

theorem format_event_missing_fields:
  assumes "fields_cached pre" and "span_fields sp = None"
  shows "format_event string_sink on t ev (pre @ sp # post) w =
           (Panic ''will never be `None`'',
            w @ header on t (ev_meta ev) @ '': '' @ concat (map span_text pre) @ span_name sp)"
  using assms by (simp add: format_event_def render_spans_string_panic)

lemma format_event_missing_fields_witness:
  "format_event string_sink False ex_time ex_event ex_missing [] =
     (Panic ''will never be `None`'', ''Wed, 12 Nov 1997 09:55:06 -0600 INFO [main.rs:74]: A{x=1}: C'')"
  using format_event_missing_fields [of "[hd ex_missing]" "ex_missing ! 1" False ex_time ex_event
      "[ex_missing ! 2]" "[]"]
  by (simp add: ex_missing_def ex_event_def ex_time_def span_text_def header_def source_tag_def
      dec_string.simps digit_char_def)

text \<open>
  C16. On a destination that appends what it accepts and may refuse a write,
  \<open>format_event\<close> either succeeds having written the whole line or returns
  \<open>fmt::Error\<close> having written a prefix of it: a failed write leaves a
  truncated line and is propagated, with no recovery.
\<close>

theorem format_event_truncates:
  assumes "append_sink ws" and "fields_cached sc" and "format_event ws on t ev sc w = (r, w')"
  shows "\<exists>p. w' = w @ p \<and>
           (r = Ok () \<and> p = event_line on t ev sc \<or> r = Err FmtError \<and> prefix p (event_line on t ev sc))"
  using emits_format_event [OF assms(1,2), of on t ev w] assms(3) by (simp add: emits_def)

lemma format_event_truncates_witness:
  "\<exists>p. ''Wed, 12 Nov 1997 09:55:06 -0600 INFO [main.rs:74]: '' = p \<and>
     prefix p (event_line False ex_time ex_event [])"
  using format_event_truncates [OF append_sink_bounded [of 55], of "[]" False ex_time ex_event "[]"
      "Err FmtError" "''Wed, 12 Nov 1997 09:55:06 -0600 INFO [main.rs:74]: ''"] ex_bounded_run
  by simp

text \<open>
  C17. Styling only adds escape codes: when the plain line contains no ESC
  character, removing the \<open>ESC[..m\<close> sequences from the coloured output gives
  the plain output.
\<close>

theorem format_event_strip_ansi:
  assumes "fields_cached sc" and "esc \<notin> set (snd (format_event string_sink False t ev sc []))"
  shows "strip_ansi (snd (format_event string_sink True t ev sc [])) =
           snd (format_event string_sink False t ev sc [])"
  using assms by (simp add: format_event_string strip_ansi_event_line)

lemma format_event_strip_ansi_witness:
  "strip_ansi (snd (format_event string_sink True ex_time ex_event ex_spans [])) =
     ''Wed, 12 Nov 1997 09:55:06 -0600 INFO [main.rs:74]: A{x=1}: B: Hello World!\<newline>''"
  using format_event_strip_ansi [of ex_spans ex_time ex_event]
  by (simp add: format_event_string event_line_def ex_event_def ex_spans_def ex_time_def header_def
      source_tag_def span_text_def dec_string.simps digit_char_def esc_def)

text \<open>
  C18. The output is one text ending in a single newline, and it holds a newline
  before that end exactly when the time, the tag, the span stack or the event's
  fields contain one: nothing escapes them, so a multi-line field value breaks the
  one-line-per-event layout.
\<close>

theorem format_event_single_line:
  assumes "fields_cached sc"
  shows "\<exists>l. snd (format_event string_sink on t ev sc []) = l @ ''\<newline>'' \<and>
           (CHR ''\<newline>'' \<in> set l \<longleftrightarrow>
            CHR ''\<newline>'' \<in> set (t @ source_tag (ev_meta ev) @ concat (map span_text sc) @ concat (ev_fields ev)))"
  using assms by (auto simp add: format_event_string event_line_nl header_def)

lemma format_event_single_line_witness:
  "\<exists>l. snd (format_event string_sink True ex_time ex_multiline [] []) = l @ ''\<newline>'' \<and>
     CHR ''\<newline>'' \<in> set l"
  using format_event_single_line [of "[]" True ex_time ex_multiline] by (simp add: ex_multiline_def)

text \<open>
  The example of the doc comment (spec section 8), evaluated: level INFO, file
  \<open>main.rs\<close>, line 74, no span, message \<open>Hello World!\<close>, colours
  disabled, gives \<open>Wed, 12 Nov 1997 09:55:06 -0600 INFO [main.rs:74]: Hello World!\<close>.
\<close>

theorem doc_example_line:
  "format_event string_sink False ex_time ex_event [] [] =
     (Ok (), ''Wed, 12 Nov 1997 09:55:06 -0600 INFO [main.rs:74]: Hello World!\<newline>'')"
  by (simp add: format_event_string event_line_def ex_event_def ex_time_def header_def source_tag_def
      dec_string.simps digit_char_def)

text \<open>
  Spec section 8, an instance of C13: inside the spans \<open>A\<close> (fields \<open>x=1\<close>) and
  \<open>B\<close> (no fields) the span segment \<open>A{x=1}: B: \<close> comes right after
  the tag's \<open>": "\<close> and right before the event's fields, also with colours on.
\<close>

theorem spec_span_example:
  "format_event string_sink True ex_time ex_event ex_spans [] =
     (Ok (), header True ex_time (ev_meta ex_event) @ '': A{x=1}: B: Hello World!\<newline>'')"
  by (simp add: format_event_string event_line_def ex_event_def ex_spans_def span_text_def)

text \<open>
  Spec section 8, an instance of C13: an event without file and line metadata
  renders the tag \<open>[:0]\<close> and formatting succeeds.
\<close>

theorem missing_metadata_tag:
  "format_event string_sink False ex_time ex_bare [] [] = (Ok (), ex_time @ '' WARN [:0]: m\<newline>'')"
  by (simp add: format_event_string event_line_def ex_bare_def header_def source_tag_def
      dec_string.simps digit_char_def)

text \<open>
  C20. The formatter does not consult the destination: whenever the console
  reports colours enabled for standard output, every line that reaches any
  appending destination (a log file included) contains escape codes.
\<close>

theorem ansi_on_any_destination:
  assumes "append_sink ws" and "fields_cached sc" and "format_event ws True t ev sc w = (Ok (), w')"
  shows "esc \<in> set w'"
  using emits_format_event [OF assms(1,2), of True t ev w] assms(3)
  by (auto simp: emits_def event_line_def header_def styled_def attr_style_def esc_code_def)

lemma ansi_on_any_destination_witness:
  "esc \<in> set (snd (format_event (bounded_sink 1000) True ex_time ex_event [] []))"
  using ansi_on_any_destination [OF append_sink_bounded [of 1000], of "[]" ex_time ex_event "[]"
      "snd (format_event (bounded_sink 1000) True ex_time ex_event [] [])"]
  by (simp add: format_event_def header_def source_tag_def ex_event_def ex_time_def write_str_def
      bounded_sink_def styled_def attr_style_def fg_style_def esc_code_def dec_string.simps digit_char_def)


text \<open>
  C35. On a destination of bounded capacity (one that refuses a write that does
  not fit), \<open>format_event\<close> succeeds exactly when the whole line fits after
  what the destination already holds; otherwise it returns \<open>fmt::Error\<close>.
\<close>

theorem format_event_bounded:
  assumes fc: "fields_cached sc"
  shows "(fst (format_event (bounded_sink cap) on t ev sc w) = Ok ()) =
           (length w + length (event_line on t ev sc) \<le> cap)"
proof
  assume ok: "fst (format_event (bounded_sink cap) on t ev sc w) = Ok ()"
  from emits_format_event [OF append_sink_bounded [of cap] fc, of on t ev w] ok
  have "snd (format_event (bounded_sink cap) on t ev sc w) = w @ event_line on t ev sc"
    by (auto simp: emits_def)
  with format_event_bounded_Ok [OF ok] show "length w + length (event_line on t ev sc) \<le> cap" by simp
next
  assume "length w + length (event_line on t ev sc) \<le> cap"
  with fc show "fst (format_event (bounded_sink cap) on t ev sc w) = Ok ()"
    by (simp add: format_event_bounded_fits)
qed

lemma format_event_bounded_witness:
  "fst (format_event (bounded_sink 55) False ex_time ex_event [] []) \<noteq> Ok () \<and>
   fst (format_event (bounded_sink 64) False ex_time ex_event [] []) = Ok ()"
  using format_event_bounded [of "[]" 55 False ex_time ex_event "[]"]
    format_event_bounded [of "[]" 64 False ex_time ex_event "[]"]
  by (simp add: event_line_def ex_event_def ex_time_def header_def source_tag_def
      dec_string.simps digit_char_def)


text \<open>
  C36. The callsite tag is short: \<open>Metadata::line\<close> is a \<open>u32\<close>, so its
  decimal rendering has at most ten digits and \<open>[file:line]\<close> is at most 13
  bytes longer than the file name.
\<close>

theorem source_tag_length:
  "length (source_tag md) \<le> length (case md_file md of None \<Rightarrow> [] | Some f \<Rightarrow> f) + 13"
proof -
  have "(case md_line md of None \<Rightarrow> 0 | Some l \<Rightarrow> unat l) < 10 ^ 10"
  proof (cases "md_line md")
    case (Some l)
    have "unat l < 2 ^ LENGTH(32)" by (rule unsigned_less)
    then show ?thesis using Some by simp
  qed simp
  then have "length (dec_string (case md_line md of None \<Rightarrow> 0 | Some l \<Rightarrow> unat l)) \<le> 10"
    by (rule dec_string_length_le) simp
  then show ?thesis by (simp add: source_tag_def)
qed

end
