(* ===== verification/Writer.thy ===== *)
theory Writer
  imports Retention
begin

text \<open>
  \<open>impl io::Write for RotatingFileWriter\<close> (src/src/writer.rs, lines 56-63):
  \<open>write\<close> and \<open>flush\<close> delegate to the \<open>BufWriter\<close> over the log file
  that \<open>new\<close> created. The open file is the environment: the bytes written
  through the handle so far, and the answers the kernel will give to the coming
  \<open>write(2)\<close> calls (all bytes, a short count, or an error such as
  \<open>Interrupted\<close> or \<open>StorageFull\<close>); once the script is used up every write
  takes all bytes. \<open>File::flush\<close> does nothing on Unix. \<open>write_all\<close> is
  \<open>io::Write\<close>'s provided method, which the log subsystem calls on the writer
  with each formatted line.
\<close>

datatype write_resp = Wrote nat | Fails io_error

record file_env =
  fe_data :: "byte list"
  fe_script :: "write_resp list"

text \<open>\<open>impl Write for File\<close>: one \<open>write(2)\<close> call.\<close>

definition file_write :: "(path, file_env) inner_write" where
  "file_write h xs e =
     (case fe_script e of
        [] \<Rightarrow> (Ok (length xs), e\<lparr>fe_data := fe_data e @ xs\<rparr>)
      | Wrote n # sc \<Rightarrow> (Ok (min n (length xs)), e\<lparr>fe_data := fe_data e @ take n xs, fe_script := sc\<rparr>)
      | Fails k # sc \<Rightarrow> (Err k, e\<lparr>fe_script := sc\<rparr>))"

definition file_flush :: "(path, file_env) inner_flush" where
  "file_flush h e = (Ok (), e)"

type_synonym 'a rw_step = "(('a, io_error) outcome \<times> rotating_file_writer \<times> file_env) option"

text \<open>\<open>fn write(&mut self, buf) { self.sink.write(buf) }\<close>\<close>

definition rw_write :: "byte list \<Rightarrow> rotating_file_writer \<times> file_env \<Rightarrow> nat rw_step" where
  "rw_write xs st =
     map_option (\<lambda>(r, bw, e). (r, (fst st)\<lparr>sink := bw\<rparr>, e)) (bw_write file_write xs (sink (fst st), snd st))"

text \<open>\<open>fn flush(&mut self) { self.sink.flush() }\<close>\<close>

definition rw_flush :: "rotating_file_writer \<times> file_env \<Rightarrow> unit rw_step" where
  "rw_flush st =
     map_option (\<lambda>(r, bw, e). (r, (fst st)\<lparr>sink := bw\<rparr>, e)) (bw_flush file_write file_flush (sink (fst st), snd st))"

text \<open>\<open>io::Write::write_all\<close>: write until all bytes are taken; \<open>Ok(0)\<close> is
  \<open>WriteZero\<close>, \<open>Interrupted\<close> retries.\<close>

partial_function (option) write_all :: "byte list \<Rightarrow> rotating_file_writer \<times> file_env \<Rightarrow> unit rw_step" where
  "write_all xs st =
     (if xs = [] then Some (Ok (), st)
      else Option.bind (rw_write xs st) (\<lambda>(r, st'). case r of
          Ok n \<Rightarrow> if n = 0 then Some (Err WriteZero, st') else write_all (drop n xs) st'
        | Err k \<Rightarrow> if k = Interrupted then write_all xs st' else Some (Err k, st')
        | Panic m \<Rightarrow> Some (Panic m, st')))"

text \<open>
  The writer's life after \<open>new\<close>: it starts on the freshly created (empty) file
  with an empty buffer; each step is a \<open>write\<close> or a \<open>flush\<close> by the log
  subsystem, or the kernel's future answers changing. \<open>acc\<close> is the bytes the
  writer has accepted, those its \<open>write\<close> calls reported written.
\<close>

inductive rw_run :: "rotating_file_writer \<times> file_env \<Rightarrow> byte list \<Rightarrow> bool" where
  start: "fe_data e = [] \<Longrightarrow> rw_run (\<lparr>sink = bufwriter_new p\<rparr>, e) []"
| do_write: "rw_run st acc \<Longrightarrow> rw_write xs st = Some (r, st') \<Longrightarrow>
            rw_run st' (acc @ (case r of Ok n \<Rightarrow> take n xs | _ \<Rightarrow> []))"
| do_flush: "rw_run st acc \<Longrightarrow> rw_flush st = Some (r, st') \<Longrightarrow> rw_run st' acc"
| env_change: "rw_run (rw, e) acc \<Longrightarrow> rw_run (rw, e\<lparr>fe_script := sc\<rparr>) acc"

definition file_ab :: "path \<Rightarrow> file_env \<Rightarrow> byte list" where
  "file_ab h e = fe_data e"

definition rw_inv :: "rotating_file_writer \<times> file_env \<Rightarrow> byte list \<Rightarrow> bool" where
  "rw_inv st acc \<longleftrightarrow>
     fe_data (snd st) @ bw_buf (sink (fst st)) = acc \<and> bw_capacity (sink (fst st)) = default_buf_size \<and>
     bw_inv (sink (fst st))"

text \<open>
  The postcondition of one \<open>write_all\<close> of \<open>xs\<close> ending in \<open>y\<close> from a state
  that had accepted \<open>acc\<close>: it accepted a prefix of \<open>xs\<close>, all of it on
  success, and otherwise stopped on a real error (not \<open>Interrupted\<close>); it
  never panics.
\<close>

definition wa_post :: "byte list \<Rightarrow> byte list \<Rightarrow> (unit, io_error) outcome \<times> rotating_file_writer \<times> file_env \<Rightarrow> bool" where
  "wa_post acc xs y \<longleftrightarrow>
     (\<exists>p. prefix p xs \<and> rw_run (snd y) (acc @ p) \<and>
        (fst y = Ok () \<and> p = xs \<or> (\<exists>k. fst y = Err k \<and> k \<noteq> Interrupted)))"

subsection \<open>Example runs\<close>

text \<open>The writer \<open>new\<close> returns in the retention examples, on an empty file.\<close>

definition ex_writer :: rotating_file_writer where
  "ex_writer = \<lparr>sink = bufwriter_new [''logs'', ''app.2024-01-04T00:00:00'']\<rparr>"

definition ex_env :: "write_resp list \<Rightarrow> file_env" where
  "ex_env sc = \<lparr>fe_data = [], fe_script = sc\<rparr>"

definition ex_hello :: "byte list" where
  "ex_hello = bytes_of ''hello''"

definition ex_buffered :: rotating_file_writer where
  "ex_buffered = \<lparr>sink = (bufwriter_new [''logs'', ''app.2024-01-04T00:00:00''])\<lparr>bw_buf := ex_hello\<rparr>\<rparr>"

subsection \<open>Lemmas\<close>

lemma honest_file: "honest file_write file_ab"
  by (auto simp: honest_def file_write_def file_ab_def min_def split: list.split write_resp.split)

lemma flush_honest_file: "flush_honest file_flush file_ab"
  by (simp add: flush_honest_def file_flush_def)

lemma stream_file [simp]: "stream file_ab (bw, e) = fe_data e @ bw_buf bw"
  by (simp add: stream_def file_ab_def)

lemma rw_write_post:
  assumes "bw_inv (sink rw)" and "rw_write xs (rw, e) = Some (r, rw', e')"
  shows "write_post file_ab xs (sink rw, e) r (sink rw', e')"
proof -
  from assms(2) obtain bw where bw: "bw_write file_write xs (sink rw, e) = Some (r, bw, e')"
    and rw': "rw' = rw\<lparr>sink := bw\<rparr>"
    by (auto simp: rw_write_def)
  from bw_write_post [OF honest_file _ bw] assms(1) rw' show ?thesis by simp
qed

lemma rw_flush_post:
  assumes "bw_inv (sink rw)" and "rw_flush (rw, e) = Some (r, rw', e')"
  shows "bw_inner (sink rw') = bw_inner (sink rw) \<and> bw_capacity (sink rw') = bw_capacity (sink rw) \<and>
         bw_inv (sink rw') \<and> fe_data e' @ bw_buf (sink rw') = fe_data e @ bw_buf (sink rw) \<and>
         (r = Ok () \<longrightarrow> bw_buf (sink rw') = [])"
proof -
  from assms(2) obtain bw where bw: "bw_flush file_write file_flush (sink rw, e) = Some (r, bw, e')"
    and rw': "rw' = rw\<lparr>sink := bw\<rparr>"
    by (auto simp: rw_flush_def)
  from bw_flush_post [OF honest_file flush_honest_file _ bw] assms(1) rw' show ?thesis by simp
qed

lemma rw_inv_parts:
  "rw_inv (rw, e) acc \<longleftrightarrow>
     fe_data e @ bw_buf (sink rw) = acc \<and> bw_capacity (sink rw) = default_buf_size \<and> bw_inv (sink rw)"
  by (simp add: rw_inv_def)

lemma rw_run_inv: "rw_run st acc \<Longrightarrow> rw_inv st acc"
proof (induction rule: rw_run.induct)
  case (start e p)
  then show ?case by (simp add: rw_inv_def bufwriter_new_def bw_inv_def default_buf_size_def)
next
  case (do_write st acc xs r st')
  obtain rw e rw' e' where st: "st = (rw, e)" and st': "st' = (rw', e')" by fastforce
  with do_write.IH have I: "fe_data e @ bw_buf (sink rw) = acc" "bw_capacity (sink rw) = default_buf_size"
    "bw_inv (sink rw)" by (simp_all add: rw_inv_parts)
  from rw_write_post [OF I(3)] do_write.hyps(2) st st'
  have P: "write_post file_ab xs (sink rw, e) r (sink rw', e')" by simp
  then show ?case
    using I st' by (cases r) (simp_all add: rw_inv_parts write_post_def)
next
  case (do_flush st acc r st')
  obtain rw e rw' e' where st: "st = (rw, e)" and st': "st' = (rw', e')" by fastforce
  with do_flush.IH have I: "fe_data e @ bw_buf (sink rw) = acc" "bw_capacity (sink rw) = default_buf_size"
    "bw_inv (sink rw)" by (simp_all add: rw_inv_parts)
  from rw_flush_post [OF I(3)] do_flush.hyps(2) st st' I st' show ?case
    by (simp add: rw_inv_parts)
next
  case (env_change rw e acc sc)
  then show ?case by (simp add: rw_inv_parts)
qed

subsubsection \<open>The loops return\<close>

lemma file_write_simps [simp]:
  "fe_script e = [] \<Longrightarrow> file_write h xs e = (Ok (length xs), e\<lparr>fe_data := fe_data e @ xs\<rparr>)"
  "fe_script e = Wrote n # sc \<Longrightarrow>
     file_write h xs e = (Ok (min n (length xs)), e\<lparr>fe_data := fe_data e @ take n xs, fe_script := sc\<rparr>)"
  "fe_script e = Fails k # sc \<Longrightarrow> file_write h xs e = (Err k, e\<lparr>fe_script := sc\<rparr>)"
  by (simp_all add: file_write_def)

lemma flush_loop_file_returns: "\<exists>y. flush_loop file_write h rest pk e = Some y"
proof (induction "length (fe_script e) + length rest" arbitrary: rest pk e rule: less_induct)
  case less
  show ?case
  proof (cases "rest = []")
    case True
    then show ?thesis by (simp add: flush_loop.simps)
  next
    case False
    show ?thesis
    proof (cases "fe_script e")
      case Nil
      have y: "flush_loop file_write h [] False (e\<lparr>fe_data := fe_data e @ rest\<rparr>) =
                 Some (Ok (), [], False, e\<lparr>fe_data := fe_data e @ rest\<rparr>)"
        by (simp add: flush_loop.simps)
      show ?thesis by (subst flush_loop.simps) (auto simp add: False Nil y)
    next
      case (Cons a sc)
      show ?thesis
      proof (cases a)
        case (Wrote n)
        have "\<exists>y. flush_loop file_write h (drop (min n (length rest)) rest) False
                    (e\<lparr>fe_data := fe_data e @ take n rest, fe_script := sc\<rparr>) = Some y"
          by (rule less) (simp add: Cons)
        with False Cons Wrote show ?thesis by (subst flush_loop.simps) auto
      next
        case (Fails k)
        have "\<exists>y. flush_loop file_write h rest False (e\<lparr>fe_script := sc\<rparr>) = Some y"
          by (rule less) (simp add: Cons)
        with False Cons Fails show ?thesis by (subst flush_loop.simps) auto
      qed
    qed
  qed
qed

lemma flush_buf_file_returns: "flush_buf file_write st \<noteq> None"
proof -
  have "flush_loop file_write (bw_inner (fst st)) (bw_buf (fst st)) (bw_panicked (fst st)) (snd st) \<noteq> None"
    using flush_loop_file_returns by blast
  then show ?thesis by (simp add: flush_buf_def)
qed

lemma rw_write_returns: "rw_write xs st \<noteq> None"
  using flush_buf_file_returns [of "(sink (fst st), snd st)"]
  by (auto simp: rw_write_def bw_write_def write_cold_def split: outcome.split prod.split)

lemma rw_flush_returns: "rw_flush st \<noteq> None"
  using flush_buf_file_returns [of "(sink (fst st), snd st)"]
  by (auto simp: rw_flush_def bw_flush_def file_flush_def split: outcome.split prod.split)

text \<open>The kernel's script only shrinks, and the flush loop never reports \<open>Interrupted\<close>.\<close>

lemma flush_loop_file_script:
  assumes ret: "flush_loop file_write h rest pk e = Some y"
  shows "suffix (fe_script (snd (snd (snd y)))) (fe_script e) \<and> fst y \<noteq> Err Interrupted \<and> \<not> is_panic (fst y) \<and>
      (\<forall>k. fst y = Err k \<longrightarrow> k = WriteZero \<or> Fails k \<in> set (fe_script e))"
proof -
  have "iw = file_write \<longrightarrow> suffix (fe_script (snd (snd (snd y')))) (fe_script e') \<and> fst y' \<noteq> Err Interrupted \<and> \<not> is_panic (fst y') \<and>
      (\<forall>k. fst y' = Err k \<longrightarrow> k = WriteZero \<or> Fails k \<in> set (fe_script e'))"
    if "flush_loop iw h' rest' pk' e' = Some y'" for iw h' rest' pk' e' y'
  proof (rule flush_loop.raw_induct [where P = "\<lambda>iw h rest pk e y. iw = file_write \<longrightarrow>
      suffix (fe_script (snd (snd (snd y)))) (fe_script e) \<and> fst y \<noteq> Err Interrupted \<and> \<not> is_panic (fst y) \<and>
      (\<forall>k. fst y = Err k \<longrightarrow> k = WriteZero \<or> Fails k \<in> set (fe_script e))", OF _ that])
    fix f iw h rest pk e y
    assume IH: "\<And>iw h rest pk e y. f iw h rest pk e = Some y \<Longrightarrow> iw = file_write \<longrightarrow>
        suffix (fe_script (snd (snd (snd y)))) (fe_script e) \<and> fst y \<noteq> Err Interrupted \<and> \<not> is_panic (fst y) \<and>
      (\<forall>k. fst y = Err k \<longrightarrow> k = WriteZero \<or> Fails k \<in> set (fe_script e))"
      and eq: "(if rest = [] then Some (Ok (), rest, pk, e)
      else case iw h rest e of
           (Ok n, s') \<Rightarrow>
             if n = 0 then Some (Err WriteZero, rest, False, s')
             else f iw h (drop n rest) False s'
           | (Err e, s') \<Rightarrow>
               if e = Interrupted then f iw h rest False s'
               else Some (Err e, rest, False, s')
           | (Panic m, s') \<Rightarrow> Some (Panic m, rest, True, s')) = Some y"
    show "iw = file_write \<longrightarrow> suffix (fe_script (snd (snd (snd y)))) (fe_script e) \<and> fst y \<noteq> Err Interrupted \<and> \<not> is_panic (fst y) \<and>
      (\<forall>k. fst y = Err k \<longrightarrow> k = WriteZero \<or> Fails k \<in> set (fe_script e))"
    proof
      assume iw: "iw = file_write"
      show "suffix (fe_script (snd (snd (snd y)))) (fe_script e) \<and> fst y \<noteq> Err Interrupted \<and> \<not> is_panic (fst y) \<and>
      (\<forall>k. fst y = Err k \<longrightarrow> k = WriteZero \<or> Fails k \<in> set (fe_script e))"
      proof (cases "rest = [] \<or> fe_script e = []")
        case True
        with eq iw IH [of file_write h "[]" False "e\<lparr>fe_data := fe_data e @ rest\<rparr>" y] show ?thesis
          by (auto split: if_splits)
      next
        case False
        then obtain a sc where sc: "fe_script e = a # sc" and ne: "rest \<noteq> []" by (cases "fe_script e") auto
        have tail: "suffix sc (fe_script e)" by (simp add: sc suffix_ConsI)
        show ?thesis
        proof (cases a)
          case (Wrote n)
          with eq iw sc ne IH [of file_write h "drop (min n (length rest)) rest" False
              "e\<lparr>fe_data := fe_data e @ take n rest, fe_script := sc\<rparr>" y] tail
          show ?thesis by (auto split: if_splits intro: suffix_order.trans dest: set_mono_suffix)
        next
          case (Fails k)
          with eq iw sc ne IH [of file_write h rest False "e\<lparr>fe_script := sc\<rparr>" y] tail
          show ?thesis by (auto split: if_splits intro: suffix_order.trans dest: set_mono_suffix)
        qed
      qed
    qed
  qed
  with ret show ?thesis by blast
qed

lemma file_write_script:
  "file_write h xs e = (r, e') \<Longrightarrow>
     suffix (fe_script e') (fe_script e) \<and> (\<forall>k. r = Err k \<longrightarrow> length (fe_script e') < length (fe_script e)) \<and>
     \<not> is_panic r"
  by (auto simp: file_write_def suffix_ConsI split: list.splits write_resp.splits)

lemma flush_buf_file_script:
  "flush_buf file_write st = Some (r, bw', e') \<Longrightarrow> suffix (fe_script e') (fe_script (snd st)) \<and> r \<noteq> Err Interrupted \<and> \<not> is_panic r \<and>
     (\<forall>k. r = Err k \<longrightarrow> k = WriteZero \<or> Fails k \<in> set (fe_script (snd st)))"
  using flush_loop_file_script by (fastforce simp: flush_buf_def)

lemma rw_write_script:
  assumes "rw_write xs (rw, e) = Some (r, rw', e')"
  shows "suffix (fe_script e') (fe_script e) \<and> (r = Err Interrupted \<longrightarrow> length (fe_script e') < length (fe_script e)) \<and>
         \<not> is_panic r"
proof -
  from assms obtain bw' where bw: "bw_write file_write xs (sink rw, e) = Some (r, bw', e')"
    by (auto simp: rw_write_def)
  show ?thesis
  proof (cases "length xs < spare_capacity (sink rw)")
    case True
    with bw show ?thesis by (auto simp: bw_write_def)
  next
    case False
    with bw have cold: "write_cold file_write xs (sink rw, e) = Some (r, bw', e')" by (simp add: bw_write_def)
    then obtain r0 bw1 e1 where
      pre: "(if spare_capacity (sink rw) < length xs then flush_buf file_write (sink rw, e)
             else Some (Ok (), sink rw, e)) = Some (r0, bw1, e1)"
      and post: "(case r0 of
          Ok _ \<Rightarrow>
            if bw_capacity bw1 \<le> length xs
            then (case file_write (bw_inner bw1) xs e1 of (r', s') \<Rightarrow> Some (r', bw1\<lparr>bw_panicked := is_panic r'\<rparr>, s'))
            else Some (Ok (length xs), bw1\<lparr>bw_buf := bw_buf bw1 @ xs\<rparr>, e1)
        | Err k \<Rightarrow> Some (Err k, bw1, e1)
        | Panic m \<Rightarrow> Some (Panic m, bw1, e1)) = Some (r, bw', e')"
      by (auto simp: write_cold_def bind_eq_Some_conv)
    from pre flush_buf_file_script [of "(sink rw, e)" r0 bw1 e1]
    have P: "suffix (fe_script e1) (fe_script e) \<and> r0 \<noteq> Err Interrupted \<and> \<not> is_panic r0"
      by (auto split: if_splits)
    obtain r' e2 where fw: "file_write (bw_inner bw1) xs e1 = (r', e2)" by fastforce
    from file_write_script [OF fw] P
    have "suffix (fe_script e2) (fe_script e)" "\<forall>k. r' = Err k \<longrightarrow> length (fe_script e2) < length (fe_script e)"
      "\<not> is_panic r'"
      by (auto intro: suffix_order.trans dest: suffix_length_le)
    with post P fw show ?thesis
      by (cases r0) (auto split: if_splits dest: suffix_length_le)
  qed
qed

lemma write_all_returns: "write_all xs st \<noteq> None"
proof (induction "length (fe_script (snd st)) + length xs" arbitrary: xs st rule: less_induct)
  case less
  obtain rw e where st: "st = (rw, e)" by fastforce
  show ?case
  proof (cases "xs = []")
    case True
    then show ?thesis by (simp add: write_all.simps)
  next
    case False
    from rw_write_returns obtain r rw' e' where w: "rw_write xs (rw, e) = Some (r, rw', e')"
      by (metis not_None_eq prod_cases3)
    note S = rw_write_script [OF w]
    have rec: "write_all xs' (rw', e') \<noteq> None"
      if "length (fe_script e') + length xs' < length (fe_script e) + length xs" for xs'
      using less that st by auto
    show ?thesis
    proof (cases r)
      case (Ok n)
      have "n \<noteq> 0 \<Longrightarrow> length (drop n xs) < length xs" using False by simp
      with S rec [of "drop n xs"] have "n \<noteq> 0 \<Longrightarrow> write_all (drop n xs) (rw', e') \<noteq> None"
        by (fastforce dest: suffix_length_le)
      with False w Ok st show ?thesis by (subst write_all.simps) auto
    next
      case (Err k)
      with S rec [of xs] have "k = Interrupted \<Longrightarrow> write_all xs (rw', e') \<noteq> None" by auto
      with False w Err st show ?thesis by (subst write_all.simps) auto
    next
      case (Panic m)
      with False w st show ?thesis by (subst write_all.simps) auto
    qed
  qed
qed

text \<open>What one call of \<open>write_all\<close> accepts, on any script of kernel answers.\<close>

lemma wa_post_step:
  assumes "wa_post (acc @ take n xs) (drop n xs) y"
  shows "wa_post acc xs y"
proof -
  from assms obtain q where q: "prefix q (drop n xs)" "rw_run (snd y) ((acc @ take n xs) @ q)"
    "fst y = Ok () \<and> q = drop n xs \<or> (\<exists>k. fst y = Err k \<and> k \<noteq> Interrupted)"
    by (auto simp: wa_post_def)
  have "prefix (take n xs @ q) xs"
    using q(1) by (metis append_take_drop_id same_prefix_prefix)
  with q show ?thesis by (auto simp: wa_post_def intro!: exI [of _ "take n xs @ q"])
qed

lemma write_all_accepts:
  assumes ret: "write_all xs st = Some y" and run: "rw_run st acc"
  shows "wa_post acc xs y"
proof -
  have "\<forall>acc. rw_run st acc \<longrightarrow> wa_post acc xs y"
  proof (rule write_all.raw_induct [where P = "\<lambda>xs st y. \<forall>acc. rw_run st acc \<longrightarrow> wa_post acc xs y", OF _ ret])
    fix f xs st y
    assume IH: "\<And>xs st y. f xs st = Some y \<Longrightarrow> \<forall>acc. rw_run st acc \<longrightarrow> wa_post acc xs y"
      and eq: "(if xs = [] then Some (Ok (), st)
         else Option.bind (rw_write xs st) (\<lambda>(r, st'). case r of
             Ok n \<Rightarrow> if n = 0 then Some (Err WriteZero, st') else f (drop n xs) st'
           | Err k \<Rightarrow> if k = Interrupted then f xs st' else Some (Err k, st')
           | Panic m \<Rightarrow> Some (Panic m, st'))) = Some y"
    show "\<forall>acc. rw_run st acc \<longrightarrow> wa_post acc xs y"
    proof (intro allI impI)
      fix acc
      assume run: "rw_run st acc"
      show "wa_post acc xs y"
      proof (cases "xs = []")
        case True
        with eq run show ?thesis by (auto simp: wa_post_def)
      next
        case False
        from rw_write_returns obtain r st1 where w: "rw_write xs st = Some (r, st1)"
          by (metis not_None_eq prod.collapse)
        have run1: "rw_run st1 (acc @ (case r of Ok n \<Rightarrow> take n xs | _ \<Rightarrow> []))"
          by (rule rw_run.do_write [OF run w])
        show ?thesis
        proof (cases r)
          case (Ok n)
          show ?thesis
          proof (cases "n = 0")
            case True
            with eq False w Ok run1 show ?thesis by (auto simp: wa_post_def intro!: exI [of _ "[]"])
          next
            case nz: False
            with eq False w Ok have "f (drop n xs) st1 = Some y" by simp
            with IH run1 Ok have "wa_post (acc @ take n xs) (drop n xs) y" by simp
            then show ?thesis by (rule wa_post_step)
          qed
        next
          case (Err k)
          show ?thesis
          proof (cases "k = Interrupted")
            case True
            with eq False w Err have "f xs st1 = Some y" by simp
            with IH run1 Err show ?thesis by simp
          next
            case ni: False
            with eq False w Err run1 show ?thesis by (auto simp: wa_post_def intro!: exI [of _ "[]"])
          qed
        next
          case (Panic m)
          with rw_write_script [of xs "fst st" "snd st" r "fst st1" "snd st1"] w show ?thesis by simp
        qed
      qed
    qed
  qed
  with run show ?thesis by blast
qed

subsubsection \<open>A kernel that takes every write whole\<close>

lemma flush_loop_no_script:
  assumes "fe_script e = []"
  shows "flush_loop file_write h rest pk e =
           Some (Ok (), [], rest = [] \<and> pk, e\<lparr>fe_data := fe_data e @ rest\<rparr>)"
proof (cases "rest = []")
  case True
  then show ?thesis by (simp add: flush_loop.simps)
next
  case False
  have "flush_loop file_write h [] False (e\<lparr>fe_data := fe_data e @ rest\<rparr>) =
          Some (Ok (), [], False, e\<lparr>fe_data := fe_data e @ rest\<rparr>)"
    by (simp add: flush_loop.simps)
  with False assms show ?thesis by (subst flush_loop.simps) simp
qed

lemma rw_write_no_script:
  assumes "fe_script e = []"
  shows "\<exists>rw' e'. rw_write xs (rw, e) = Some (Ok (length xs), rw', e') \<and> fe_script e' = []"
  using assms
  by (auto simp: rw_write_def bw_write_def write_cold_def flush_buf_def flush_loop_no_script)

lemma rw_flush_no_script:
  assumes "fe_script e = []"
  shows "\<exists>rw' e'. rw_flush (rw, e) = Some (Ok (), rw', e')"
  using assms
  by (auto simp: rw_flush_def bw_flush_def flush_buf_def flush_loop_no_script file_flush_def)

lemma write_all_no_script:
  assumes run: "rw_run (rw, e) acc" and sc: "fe_script e = []"
  shows "\<exists>rw' e'. write_all xs (rw, e) = Some (Ok (), rw', e') \<and> rw_run (rw', e') (acc @ xs) \<and>
                  fe_script e' = []"
proof (cases "xs = []")
  case True
  with run sc show ?thesis by (simp add: write_all.simps)
next
  case False
  from rw_write_no_script [OF sc] obtain rw' e' where
    w: "rw_write xs (rw, e) = Some (Ok (length xs), rw', e')" and sc': "fe_script e' = []"
    by blast
  from rw_run.do_write [OF run w] have "rw_run (rw', e') (acc @ xs)" by simp
  with False w sc' show ?thesis by (subst write_all.simps) (simp add: write_all.simps)
qed

subsubsection \<open>The example run\<close>

lemma ex_write_hello: "rw_write ex_hello (ex_writer, ex_env sc) = Some (Ok 5, ex_buffered, ex_env sc)"
  by (simp add: rw_write_def bw_write_def spare_capacity_def ex_writer_def ex_buffered_def ex_hello_def
      bytes_of_def bufwriter_new_def default_buf_size_def)

lemma ex_run_start: "rw_run (ex_writer, ex_env sc) []"
  unfolding ex_writer_def by (rule rw_run.start) (simp add: ex_env_def)

lemma ex_run_hello: "rw_run (ex_buffered, ex_env sc) ex_hello"
proof -
  from rw_run.do_write [OF ex_run_start ex_write_hello] show ?thesis
    by (simp add: ex_hello_def bytes_of_def)
qed

lemma ex_flush_full:
  "rw_flush (ex_buffered, ex_env [Fails StorageFull]) =
     Some (Err StorageFull, ex_buffered, ex_env [])"
proof -
  have "flush_loop file_write [''logs'', ''app.2024-01-04T00:00:00''] ex_hello False (ex_env [Fails StorageFull]) =
          Some (Err StorageFull, ex_hello, False, ex_env [])"
    by (subst flush_loop.simps) (simp add: ex_hello_def bytes_of_def ex_env_def file_write_def)
  then show ?thesis
    by (simp add: rw_flush_def bw_flush_def flush_buf_def ex_buffered_def bufwriter_new_def)
qed

lemma ex_flush_ok:
  "rw_flush (ex_buffered, ex_env []) =
     Some (Ok (), ex_writer, \<lparr>fe_data = ex_hello, fe_script = []\<rparr>)"
  by (simp add: rw_flush_def bw_flush_def flush_buf_def flush_loop_no_script ex_env_def file_flush_def
      ex_buffered_def ex_writer_def bufwriter_new_def ex_hello_def bytes_of_def)

subsection \<open>Properties of the writer\<close>

text \<open>
  C21. Nothing accepted is lost, duplicated or reordered: in every state of the
  writer's life, the bytes in the log file followed by the bytes in the buffer are
  exactly the bytes its \<open>write\<close> calls reported written, whatever the kernel
  answered (short writes, interruptions, errors).
\<close>

theorem rw_run_accepted:
  "rw_run st acc \<Longrightarrow> fe_data (snd st) @ bw_buf (sink (fst st)) = acc"
  using rw_run_inv by (simp add: rw_inv_def)

lemma rw_run_accepted_witness: "fe_data (ex_env []) @ bw_buf (sink ex_buffered) = ex_hello"
  using rw_run_accepted [OF ex_run_hello [of "[]"]] by simp

text \<open>
  C22. The buffer never holds more than \<open>DEFAULT_BUF_SIZE\<close> (8 KiB) bytes and
  its capacity never changes.
\<close>

theorem rw_run_buffer_bound:
  "rw_run st acc \<Longrightarrow>
     length (bw_buf (sink (fst st))) \<le> 8192 \<and> bw_capacity (sink (fst st)) = default_buf_size"
  by (drule rw_run_inv) (auto simp: rw_inv_def bw_inv_def default_buf_size_def)

lemma rw_run_buffer_bound_witness:
  "length (bw_buf (sink ex_buffered)) \<le> 8192 \<and> bw_capacity (sink ex_buffered) = default_buf_size"
  using rw_run_buffer_bound [OF ex_run_hello] by simp

text \<open>
  C23. A successful \<open>flush\<close> leaves every accepted byte in the file, in order,
  and the buffer empty.
\<close>

theorem rw_flush_ok:
  assumes "rw_run (rw, e) acc" and "rw_flush (rw, e) = Some (Ok (), rw', e')"
  shows "fe_data e' = acc \<and> bw_buf (sink rw') = []"
  using rw_flush_post [of rw e "Ok ()" rw' e'] assms rw_run_inv [OF assms(1)]
  by (auto simp: rw_inv_def)

lemma rw_flush_ok_witness: "fe_data \<lparr>fe_data = ex_hello, fe_script = []\<rparr> = ex_hello"
  using rw_flush_ok [OF ex_run_hello ex_flush_ok] by simp

text \<open>
  C24. A failed \<open>flush\<close> returns an error the kernel answered, or
  \<open>WriteZero\<close> when the file took no byte, never \<open>Interrupted\<close>
  (which is retried), and loses nothing: the bytes not written stay in the buffer
  for the next call.
\<close>

theorem rw_flush_error:
  assumes "rw_run (rw, e) acc" and "rw_flush (rw, e) = Some (Err k, rw', e')"
  shows "fe_data e' @ bw_buf (sink rw') = acc \<and> k \<noteq> Interrupted \<and>
         (k = WriteZero \<or> Fails k \<in> set (fe_script e))"
proof -
  from assms(2) obtain bw where bw: "bw_flush file_write file_flush (sink rw, e) = Some (Err k, bw, e')"
    and rw': "rw' = rw\<lparr>sink := bw\<rparr>"
    by (auto simp: rw_flush_def)
  obtain r0 bw0 e0 where fb: "flush_buf file_write (sink rw, e) = Some (r0, bw0, e0)"
    using flush_buf_file_returns by (metis not_None_eq prod_cases3)
  with bw have "r0 = Err k" by (cases r0) (auto simp: bw_flush_def file_flush_def)
  with flush_buf_file_script [OF fb] have "k \<noteq> Interrupted \<and> (k = WriteZero \<or> Fails k \<in> set (fe_script e))"
    by simp
  with rw_flush_post [of rw e "Err k" rw' e'] assms rw_run_inv [OF assms(1)] show ?thesis
    by (simp add: rw_inv_def)
qed

lemma rw_flush_error_witness:
  "fe_data (ex_env []) @ bw_buf (sink ex_buffered) = ex_hello \<and> StorageFull \<noteq> Interrupted \<and>
   (StorageFull = WriteZero \<or> Fails StorageFull \<in> set [Fails StorageFull])"
  using rw_flush_error [OF rw_run.env_change [OF ex_run_hello, of "[Fails StorageFull]"]] ex_flush_full
  by (simp add: ex_env_def)

text \<open>
  C25. \<open>write\<close> and \<open>flush\<close> always return, in every state and on every
  script of kernel answers: the flush loop inside \<open>BufWriter\<close> terminates.
\<close>

theorem rw_write_flush_return: "rw_write xs st \<noteq> None \<and> rw_flush st \<noteq> None"
  using rw_write_returns rw_flush_returns by blast

text \<open>
  C26. \<open>write_all\<close> on the writer, the call the log subsystem makes for each
  line, always returns, whatever the kernel answers.
\<close>

theorem write_all_terminates: "write_all xs st \<noteq> None"
  by (rule write_all_returns)

text \<open>
  C29. Lines are not written through: while the buffer has room, \<open>write_all\<close>
  of a line succeeds without any system call, so the file is unchanged and the
  line exists only in the process's memory until a flush.
\<close>

theorem write_all_buffers:
  assumes "rw_run (rw, e) acc" and "length (bw_buf (sink rw)) + length xs < default_buf_size"
  shows "\<exists>rw'. write_all xs (rw, e) = Some (Ok (), rw', e) \<and> bw_buf (sink rw') = bw_buf (sink rw) @ xs"
proof (cases "xs = []")
  case True
  then show ?thesis by (simp add: write_all.simps)
next
  case False
  from rw_run_inv [OF assms(1)] have cap: "bw_capacity (sink rw) = default_buf_size"
    by (simp add: rw_inv_def)
  with assms(2) have "length xs < spare_capacity (sink rw)" by (simp add: spare_capacity_def)
  then have "rw_write xs (rw, e) =
      Some (Ok (length xs), rw\<lparr>sink := (sink rw)\<lparr>bw_buf := bw_buf (sink rw) @ xs\<rparr>\<rparr>, e)"
    by (simp add: rw_write_def bw_write_def)
  with False show ?thesis by (subst write_all.simps) (simp add: write_all.simps)
qed

lemma write_all_buffers_witness:
  "\<exists>rw'. write_all ex_hello (ex_writer, ex_env []) = Some (Ok (), rw', ex_env []) \<and>
     bw_buf (sink rw') = ex_hello"
  using write_all_buffers [OF ex_run_start, of ex_hello]
  by (simp add: ex_writer_def bufwriter_new_def default_buf_size_def ex_hello_def bytes_of_def)

text \<open>
  C30. No accepted byte is stuck: from every state of the writer's life, once the
  kernel takes writes whole, one \<open>flush\<close> reaches a state of the same run in
  which the file holds every accepted byte and the buffer is empty.
\<close>

theorem rw_run_can_drain:
  assumes "rw_run (rw, e) acc"
  shows "\<exists>rw' e'. rw_flush (rw, e\<lparr>fe_script := []\<rparr>) = Some (Ok (), rw', e') \<and>
           rw_run (rw', e') acc \<and> fe_data e' = acc \<and> bw_buf (sink rw') = []"
proof -
  have run: "rw_run (rw, e\<lparr>fe_script := []\<rparr>) acc" by (rule rw_run.env_change [OF assms])
  from rw_flush_no_script obtain rw' e' where fl: "rw_flush (rw, e\<lparr>fe_script := []\<rparr>) = Some (Ok (), rw', e')"
    by fastforce
  have run': "rw_run (rw', e') acc" by (rule rw_run.do_flush [OF run fl])
  from rw_run_inv [OF run] have "bw_inv (sink rw)" "fe_data e @ bw_buf (sink rw) = acc"
    by (simp_all add: rw_inv_def)
  with rw_flush_post [of rw "e\<lparr>fe_script := []\<rparr>", OF _ fl] run' fl show ?thesis by auto
qed

lemma rw_run_can_drain_witness:
  "\<exists>rw' e'. rw_flush (ex_buffered, (ex_env [Fails StorageFull])\<lparr>fe_script := []\<rparr>) = Some (Ok (), rw', e') \<and>
     fe_data e' = ex_hello"
  using rw_run_can_drain [OF ex_run_hello [of "[Fails StorageFull]"]] by blast

lemma ex_big_write:
  "write_all (replicate 8292 65) (ex_writer, ex_env [Wrote 100, Fails StorageFull]) =
     Some (Err StorageFull, ex_writer, \<lparr>fe_data = replicate 100 65, fe_script = []\<rparr>)"
proof -
  have e1: "rw_write (replicate 8292 65) (ex_writer, ex_env [Wrote 100, Fails StorageFull]) =
      Some (Ok 100, ex_writer, \<lparr>fe_data = replicate 100 65, fe_script = [Fails StorageFull]\<rparr>)"
    by (simp add: rw_write_def bw_write_def write_cold_def spare_capacity_def flush_buf_def flush_loop.simps
        ex_writer_def bufwriter_new_def default_buf_size_def ex_env_def file_write_def)
  have e2: "rw_write (replicate 8192 65) (ex_writer, \<lparr>fe_data = replicate 100 65, fe_script = [Fails StorageFull]\<rparr>) =
      Some (Err StorageFull, ex_writer, \<lparr>fe_data = replicate 100 65, fe_script = []\<rparr>)"
    by (simp add: rw_write_def bw_write_def write_cold_def spare_capacity_def
        ex_writer_def bufwriter_new_def default_buf_size_def file_write_def)
  have d: "drop 100 (replicate 8292 (65::byte)) = replicate 8192 65" by simp
  show ?thesis
    by (subst write_all.simps) (simp add: e1 d, subst write_all.simps, simp add: e2)
qed

text \<open>
  C34. A line handed to \<open>write_all\<close> is accepted whole or cut: on success
  every byte of it follows what was accepted before, and on a kernel error (never
  \<open>Interrupted\<close>, which is retried; never a panic) a prefix of it has been
  accepted and stays in the file or the buffer. A failed \<open>write_all\<close> can
  thus leave a truncated line that the next line continues.
\<close>

theorem write_all_prefix:
  assumes "rw_run st acc" and "write_all xs st = Some (r, st')"
  shows "\<exists>p. prefix p xs \<and> fe_data (snd st') @ bw_buf (sink (fst st')) = acc @ p \<and>
           (r = Ok () \<and> p = xs \<or> (\<exists>k. r = Err k \<and> k \<noteq> Interrupted))"
proof -
  from write_all_accepts [OF assms(2,1)] obtain p where p: "prefix p xs" "rw_run st' (acc @ p)"
    "r = Ok () \<and> p = xs \<or> (\<exists>k. r = Err k \<and> k \<noteq> Interrupted)"
    by (auto simp: wa_post_def)
  from rw_run_inv [OF p(2)] have "fe_data (snd st') @ bw_buf (sink (fst st')) = acc @ p"
    by (simp add: rw_inv_def)
  with p show ?thesis by blast
qed

lemma write_all_prefix_witness:
  "\<exists>p. prefix p (replicate 8292 (65::byte)) \<and> p = replicate 100 65 \<and> p \<noteq> replicate 8292 65"
  using write_all_prefix [OF ex_run_start ex_big_write] by (simp add: ex_writer_def bufwriter_new_def)

end
