(* ===== verification/Restarts.thy ===== *)
theory Restarts
  imports Retention
begin

text \<open>
  The retention policy across process runs. Each run of the program calls
  \<open>RotatingFileWriter::new\<close> once (src/src/writer.rs, lines 15-53) on the same
  directory, prefix and \<open>max\<close>, with the clock reading of that start.
  \<open>restarted\<close> is the inductive relation of the file-system states after one or
  more such starts, from a directory that is well-formed, readable and writable
  and whose logs can be deleted, each start at a second whose log name is not
  taken yet. The invariant of spec section 3 (at most \<open>max\<close> qualifying files
  after construction) holds in all of them, by rule induction, and from each of
  them the next start succeeds. The last section computes two directories where
  the lexicographic order of the names is not the order of the runs.
\<close>

definition immutable_at :: "fs \<Rightarrow> path \<Rightarrow> bool" where
  "immutable_at fs p = (case map_of fs p of Some (RegFile c i) \<Rightarrow> i | _ \<Rightarrow> False)"

definition good_dir :: "path \<Rightarrow> name \<Rightarrow> world \<Rightarrow> bool" where
  "good_dir dir pfx w \<longleftrightarrow>
     wf_fs (fsys w) \<and> map_of (fsys w) dir = Some (Dir True True) \<and>
     (\<forall>n \<in> set (log_names dir pfx (fsys w)). \<not> immutable_at (fsys w) (dir @ [n]))"

definition fresh_name :: "path \<Rightarrow> name \<Rightarrow> datetime \<Rightarrow> world \<Rightarrow> bool" where
  "fresh_name dir pfx now w \<longleftrightarrow> map_of (fsys w) (dir @ [log_file_name pfx now]) = None"

inductive restarted :: "nat \<Rightarrow> path \<Rightarrow> name \<Rightarrow> world \<Rightarrow> bool" for m dir pfx where
  first: "good_dir dir pfx w \<Longrightarrow> fresh_name dir pfx now w \<Longrightarrow>
            restarted m dir pfx (snd (rotating_new m dir pfx now w))"
| again: "restarted m dir pfx w \<Longrightarrow> fresh_name dir pfx now w \<Longrightarrow>
            restarted m dir pfx (snd (rotating_new m dir pfx now w))"

inductive_cases restarted_last: "restarted m dir pfx w"

text \<open>
  Two directories in which name order is not time order. In the first the clock went
  back at the end of daylight saving time: the run at 01:30 (summer time) was followed,
  40 minutes later, by a run at 01:10 (winter time), and the third run starts at 01:20.
  In the second the previous run wrote its log in year 10000, which chrono renders as
  \<open>+10000\<close>, and \<open>+\<close> sorts before every digit.
\<close>

definition ex_dst :: world where
  "ex_dst = \<lparr>fsys = [([], Dir True True), ([''logs''], Dir True True),
      ([''logs'', ''app.2024-11-03T01:30:00''], RegFile [] False),
      ([''logs'', ''app.2024-11-03T01:10:00''], RegFile [] False)], warnings = []\<rparr>"

definition ex_dst_now :: datetime where
  "ex_dst_now = \<lparr>dt_year = 2024, dt_month = 11, dt_day = 3, dt_hour = 1, dt_minute = 20, dt_second = 0\<rparr>"

definition ex_y10k :: world where
  "ex_y10k = \<lparr>fsys = [([], Dir True True), ([''logs''], Dir True True),
      ([''logs'', ''app.9999-12-31T23:59:59''], RegFile [] False),
      ([''logs'', ''app.+10000-01-01T00:00:00''], RegFile [] False)], warnings = []\<rparr>"

definition ex_y10k_now :: datetime where
  "ex_y10k_now = \<lparr>dt_year = 10000, dt_month = 1, dt_day = 1, dt_hour = 0, dt_minute = 0, dt_second = 1\<rparr>"

text \<open>Two clock readings on either side of the year-10000 boundary.\<close>

definition ex_y10k_old :: datetime where
  "ex_y10k_old = \<lparr>dt_year = 10000, dt_month = 1, dt_day = 1, dt_hour = 0, dt_minute = 0, dt_second = 0\<rparr>"

definition ex_y9999 :: datetime where
  "ex_y9999 = \<lparr>dt_year = 9999, dt_month = 12, dt_day = 31, dt_hour = 23, dt_minute = 59, dt_second = 59\<rparr>"

text \<open>A second start, a day after the example's.\<close>

definition ex_now2 :: datetime where
  "ex_now2 = \<lparr>dt_year = 2024, dt_month = 1, dt_day = 5, dt_hour = 0, dt_minute = 0, dt_second = 0\<rparr>"

subsection \<open>Lemmas\<close>

lemma wf_remove_step: "wf_fs (fsys w) \<Longrightarrow> wf_fs (fsys (remove_step p w))"
  by (auto simp: remove_step_def split: sum.split intro: wf_fs_remove_file)

lemma wf_fold_remove_step: "wf_fs (fsys w) \<Longrightarrow> wf_fs (fsys (fold remove_step ps w))"
  by (induction ps arbitrary: w) (auto intro: wf_remove_step)

lemma wf_rotating_new: "wf_fs (fsys w) \<Longrightarrow> wf_fs (fsys (snd (rotating_new m dir pfx now w)))"
proof (cases "create_dir_all dir (fsys w)")
  case (Inl e)
  moreover assume "wf_fs (fsys w)"
  ultimately show ?thesis by (simp add: rotating_new_unfold)
next
  case (Inr fs1)
  assume "wf_fs (fsys w)"
  with Inr create_dir_all_preserves have "wf_fs fs1" by blast
  then have "wf_fs (fsys (fold remove_step qs (w\<lparr>fsys := fs1\<rparr>)))" for qs
    by (intro wf_fold_remove_step) simp
  with Inr show ?thesis
    by (auto simp: rotating_new_unfold Let_def fs_op_def split: sum.split intro: wf_fs_file_create)
qed

lemma not_immutable_at:
  "(\<not> immutable_at fs p) = (\<forall>c. map_of fs p \<noteq> Some (RegFile c True))"
  by (auto simp: immutable_at_def split: option.split node.split)

lemma good_dir_mut:
  "good_dir dir pfx w \<Longrightarrow>
     \<forall>n \<in> set (log_names dir pfx (fsys w)). \<forall>c. map_of (fsys w) (dir @ [n]) \<noteq> Some (RegFile c True)"
  by (simp add: good_dir_def not_immutable_at)

lemma length_kept_logs:
  "wf_fs fs \<Longrightarrow>
     length (filter (\<lambda>n. n \<notin> set (doomed (max 1 m) (log_names dir pfx fs))) (log_names dir pfx fs)) =
       min (length (log_names dir pfx fs)) (max 1 m - 1)"
  by (simp add: length_filter_notin distinct_log_names distinct_doomed doomed_sub length_doomed)

text \<open>One start from a good directory keeps it good and leaves at most \<open>max\<close> logs.\<close>

lemma good_dir_step:
  assumes good: "good_dir dir pfx w" and fresh: "fresh_name dir pfx now w"
  shows "good_dir dir pfx (snd (rotating_new m dir pfx now w)) \<and>
         length (log_names dir pfx (fsys (snd (rotating_new m dir pfx now w)))) \<le> max 1 m \<and>
         log_file_name pfx now \<in> set (log_names dir pfx (fsys (snd (rotating_new m dir pfx now w))))"
proof -
  let ?L = "log_names dir pfx (fsys w)"
  let ?old = "doomed (max 1 m) ?L"
  let ?nm = "log_file_name pfx now"
  let ?fs2 = "filter (\<lambda>e. fst e \<notin> (\<lambda>n. dir @ [n]) ` set ?old) (fsys w)"
  from good have wf: "wf_fs (fsys w)" and dir: "map_of (fsys w) dir = Some (Dir True True)"
    by (simp_all add: good_dir_def)
  note mut = good_dir_mut [OF good]
  from fresh have fr: "map_of (fsys w) (dir @ [?nm]) = None" by (simp add: fresh_name_def)
  note C = rotating_new_clean [OF wf dir mut fr, of m]
  let ?w' = "snd (rotating_new m dir pfx now w)"
  have fs': "fsys ?w' = AList.update (dir @ [?nm]) (RegFile [] False) ?fs2" using C(1) by simp
  have names: "log_names dir pfx (fsys ?w') = filter (\<lambda>n. n \<notin> set ?old) ?L @ [?nm]" using C(2) .
  have dir': "map_of (fsys ?w') dir = Some (Dir True True)"
    using dir by (simp add: fs' update_conv' map_of_filter_notin)
  have kept: "\<not> immutable_at (fsys ?w') (dir @ [n])" if n: "n \<in> set (log_names dir pfx (fsys ?w'))" for n
  proof (cases "n = ?nm")
    case True
    then show ?thesis by (simp add: fs' immutable_at_def update_conv')
  next
    case False
    with n names have "n \<in> set ?L" "n \<notin> set ?old" by auto
    with mut False show ?thesis
      by (simp add: fs' update_conv' map_of_filter_notin not_immutable_at)
  qed
  have "length (log_names dir pfx (fsys ?w')) = min (length ?L) (max 1 m - 1) + 1"
    using names length_kept_logs [OF wf, of m dir pfx] by simp
  then have "length (log_names dir pfx (fsys ?w')) \<le> max 1 m" by simp
  with wf_rotating_new [OF wf] dir' kept names show ?thesis
    by (simp add: good_dir_def)
qed

lemma restarted_good: "restarted m dir pfx w \<Longrightarrow> good_dir dir pfx w \<and> length (log_names dir pfx (fsys w)) \<le> max 1 m"
proof (induction rule: restarted.induct)
  case (first w now)
  then show ?case using good_dir_step by blast
next
  case (again w now)
  then show ?case using good_dir_step by blast
qed


text \<open>
  The facts that evaluate a log file name and a start on a concrete directory.
\<close>

lemmas name_eval = log_file_name_def format_ts_def fmt_year_def fmt2_def pad_zero_def
  dec_string.simps digit_char_def

lemmas start_eval = rotating_new_def create_dir_all.simps mkdir_def is_dir_def fs_op_def scan_logs_def
  read_dir_def children_def log_filter_def prune_def remove_step_def remove_file_def file_create_def
  log_names_def Let_def

text \<open>A year past 9999 is written with a sign, and \<open>+\<close> sorts before every digit.\<close>

lemma log_file_name_year_10000_less:
  assumes "10000 \<le> dt_year t" and "0 \<le> dt_year t'" and "dt_year t' < 10000"
  shows "log_file_name pfx t < log_file_name pfx t'"
proof -
  have four: "(4::nat) = Suc 3" by simp
  obtain d s where d: "d < 10" and s: "fixed_digits 4 (nat (dt_year t')) = digit_char d # s"
    using fixed_digits_Suc_head [of 3 "nat (dt_year t')"] unfolding four by blast
  have y': "fmt_year (dt_year t') = digit_char d # s"
    using assms(2,3) s by (simp add: fmt_year_fixed)
  have y: "fmt_year (dt_year t) = CHR ''+'' # pad_zero 4 (dec_string (nat \<bar>dt_year t\<bar>))"
    using assms(1) unfolding fmt_year_def by simp
  have c: "CHR ''+'' < digit_char d"
    using d by (simp add: less_char_def of_char_digit_char)
  have "fmt_year (dt_year t) @ rest < fmt_year (dt_year t') @ rest'" for rest rest'
    unfolding y y' append_Cons using c by (simp only: Cons_less_Cons simp_thms)
  then show ?thesis
    unfolding log_file_name_def format_ts_def by (simp only: less_list_same_prefix)
qed

lemma ex_world_good: "good_dir [''logs''] ''app'' ex_world"
  using ex_world_wf ex_world_dir ex_world_mutable by (simp add: good_dir_def not_immutable_at)

lemma ex_world_restarted: "restarted 2 [''logs''] ''app'' (snd (rotating_new 2 [''logs''] ''app'' ex_now ex_world))"
  using ex_world_fresh by (intro restarted.first ex_world_good) (simp add: fresh_name_def)

lemma ex_now2_name: "log_file_name ''app'' ex_now2 = ''app.2024-01-05T00:00:00''"
  by (simp add: name_eval ex_now2_def)

subsection \<open>Properties across restarts\<close>

text \<open>
  C32. Spec section 3's invariant across process runs: when every start finds the
  directory readable and writable, its logs deletable and its own name free, the
  directory holds at most \<open>max\<close> (coerced to at least 1) qualifying files after
  each start, however many runs there were and however many logs there were
  before the first.
\<close>

theorem restarted_at_most_max:
  "restarted m dir pfx w \<Longrightarrow> length (log_names dir pfx (fsys w)) \<le> max 1 m"
  using restarted_good by blast

lemma restarted_at_most_max_witness:
  "length (log_names [''logs''] ''app'' (fsys (snd (rotating_new 2 [''logs''] ''app'' ex_now ex_world)))) \<le> 2"
  using restarted_at_most_max [OF ex_world_restarted] by simp

text \<open>
  C33. A history never gets stuck: from every state reached by such starts, the next
  start whose name is free succeeds, returns the writer on its own new file, and that
  file is among the logs kept, so the current run's log is never the one pruned.
\<close>

theorem restarted_next_start_ok:
  assumes run: "restarted m dir pfx w" and fresh: "fresh_name dir pfx now w"
  shows "fst (rotating_new m dir pfx now w) = Ok \<lparr>sink = bufwriter_new (dir @ [log_file_name pfx now])\<rparr> \<and>
         log_file_name pfx now \<in> set (log_names dir pfx (fsys (snd (rotating_new m dir pfx now w))))"
proof
  from run have good: "good_dir dir pfx w" using restarted_good by blast
  then have wf: "wf_fs (fsys w)" and dir: "map_of (fsys w) dir = Some (Dir True True)"
    by (simp_all add: good_dir_def)
  from fresh have fr: "map_of (fsys w) (dir @ [log_file_name pfx now]) = None" by (simp add: fresh_name_def)
  show "fst (rotating_new m dir pfx now w) = Ok \<lparr>sink = bufwriter_new (dir @ [log_file_name pfx now])\<rparr>"
    using rotating_new_clean [OF wf dir good_dir_mut [OF good] fr, of m] by simp
  show "log_file_name pfx now \<in> set (log_names dir pfx (fsys (snd (rotating_new m dir pfx now w))))"
    using good_dir_step [OF good fresh] by blast
qed

lemma restarted_next_start_ok_witness:
  "fst (rotating_new 2 [''logs''] ''app'' ex_now2 (snd (rotating_new 2 [''logs''] ''app'' ex_now ex_world))) =
     Ok \<lparr>sink = bufwriter_new [''logs'', ''app.2024-01-05T00:00:00'']\<rparr> \<and>
   ''app.2024-01-05T00:00:00'' \<in>
     set (log_names [''logs''] ''app'' (fsys (snd (rotating_new 2 [''logs''] ''app'' ex_now2 (snd (rotating_new 2 [''logs''] ''app'' ex_now ex_world))))))"
proof -
  have "fresh_name [''logs''] ''app'' ex_now2 (snd (rotating_new 2 [''logs''] ''app'' ex_now ex_world))"
    by (simp add: fresh_name_def ex_now2_name start_eval ex_world_def ex_now_name)
  from restarted_next_start_ok [OF ex_world_restarted this] show ?thesis by (simp add: ex_now2_name)
qed

subsection \<open>Two starts within one second\<close>

text \<open>
  C11. When the new file's name is taken by a regular file (a previous run started
  within the same second), \<open>File::create\<close> truncates it: construction succeeds,
  the file at the new path is empty whatever it held, and the start gains no
  qualifying file, so the previous run's log is lost rather than kept beside the new one.
\<close>

theorem rotating_new_collision_truncates:
  assumes wf: "wf_fs (fsys w)"
    and dir: "map_of (fsys w) dir = Some (Dir True True)"
    and mut: "\<forall>n \<in> set (log_names dir pfx (fsys w)). \<forall>c. map_of (fsys w) (dir @ [n]) \<noteq> Some (RegFile c True)"
    and coll: "map_of (fsys w) (dir @ [log_file_name pfx now]) = Some (RegFile c False)"
  shows "fst (rotating_new m dir pfx now w) = Ok \<lparr>sink = bufwriter_new (dir @ [log_file_name pfx now])\<rparr> \<and>
         map_of (fsys (snd (rotating_new m dir pfx now w))) (dir @ [log_file_name pfx now]) = Some (RegFile [] False) \<and>
         set (log_names dir pfx (fsys (snd (rotating_new m dir pfx now w)))) \<subseteq> set (log_names dir pfx (fsys w)) \<and>
         length (log_names dir pfx (fsys (snd (rotating_new m dir pfx now w)))) \<le> length (log_names dir pfx (fsys w))"
proof -
  let ?L = "log_names dir pfx (fsys w)"
  let ?old = "doomed (max 1 m) ?L"
  let ?nm = "log_file_name pfx now"
  let ?P = "dir @ [?nm]"
  let ?fs2 = "filter (\<lambda>e. fst e \<notin> (\<lambda>n. dir @ [n]) ` set ?old) (fsys w)"
  let ?fs3 = "AList.update ?P (RegFile [] False) ?fs2"
  have rn: "removed_names dir ?old (fsys w) = ?old" and re: "removal_errors dir ?old (fsys w) = []"
    using removed_all [OF wf dir mut doomed_sub] by simp_all
  have dir2: "map_of ?fs2 dir = Some (Dir True True)"
    using dir by (simp add: map_of_filter_notin)
  have "map_of ?fs2 ?P = None \<or> map_of ?fs2 ?P = Some (RegFile c False)"
    using coll by (simp add: map_of_filter_notin)
  then have fc: "file_create ?P ?fs2 = Inr ?fs3"
    using dir2 by (auto simp: file_create_def)
  have st: "rotating_new m dir pfx now w = (Ok \<lparr>sink = bufwriter_new ?P\<rparr>, w\<lparr>fsys := ?fs3\<rparr>)"
    using rotating_new_state [OF wf dir, of m pfx now] unfolding Let_def rn re fc by simp
  have nmL: "?nm \<in> set ?L"
    using coll wf by (simp add: log_names_map_of log_file_name_def)
  have wf3: "wf_fs ?fs3"
    using wf_rotating_new [OF wf, of m dir pfx now] st by simp
  have sub: "set (log_names dir pfx ?fs3) \<subseteq> set ?L"
  proof
    fix n assume n: "n \<in> set (log_names dir pfx ?fs3)"
    show "n \<in> set ?L"
    proof (cases "n = ?nm")
      case True
      with nmL show ?thesis by simp
    next
      case False
      with n wf3 obtain x where "map_of ?fs2 (dir @ [n]) = Some x" "is_file x" "prefix pfx n"
        by (auto simp: log_names_map_of update_conv')
      with wf show ?thesis
        by (auto simp: log_names_map_of map_of_filter_notin split: if_splits)
    qed
  qed
  have "length (log_names dir pfx ?fs3) \<le> length ?L"
    using card_mono [OF finite_set sub] distinct_log_names [OF wf3] distinct_log_names [OF wf]
    by (simp add: distinct_card)
  with sub st show ?thesis by (simp add: update_conv')
qed


lemma rotating_new_collision_truncates_witness:
  "map_of (fsys (snd (rotating_new 3 [''logs''] ''app'' ex_now ex_collide))) [''logs'', ''app.2024-01-04T00:00:00''] =
     Some (RegFile [] False) \<and>
   length (log_names [''logs''] ''app'' (fsys (snd (rotating_new 3 [''logs''] ''app'' ex_now ex_collide)))) \<le> 1"
proof -
  have wf: "wf_fs (fsys ex_collide)" by (simp add: ex_collide_def wf_fs_def is_dir_def)
  have dir: "map_of (fsys ex_collide) [''logs''] = Some (Dir True True)" by (simp add: ex_collide_def)
  have L: "log_names [''logs''] ''app'' (fsys ex_collide) = [''app.2024-01-04T00:00:00'']"
    by (simp add: ex_collide_def log_names_def children_def log_filter_def)
  have mut: "\<forall>n \<in> set (log_names [''logs''] ''app'' (fsys ex_collide)).
      \<forall>c. map_of (fsys ex_collide) ([''logs''] @ [n]) \<noteq> Some (RegFile c True)"
    unfolding L by (simp add: ex_collide_def)
  have coll: "map_of (fsys ex_collide) ([''logs''] @ [log_file_name ''app'' ex_now]) = Some (RegFile [1, 2, 3] False)"
    by (simp add: ex_collide_def ex_now_name)
  from rotating_new_collision_truncates [OF wf dir mut coll, of 3] show ?thesis
    by (simp add: ex_now_name L)
qed

subsection \<open>Where name order is not time order\<close>

lemma ex_dst_now_name: "log_file_name ''app'' ex_dst_now = ''app.2024-11-03T01:20:00''"
  by (simp add: name_eval ex_dst_now_def)

lemma ex_y10k_now_name: "log_file_name ''app'' ex_y10k_now = ''app.+10000-01-01T00:00:01''"
  by (simp add: name_eval ex_y10k_now_def)

text \<open>
  After the clock went back, the third start with \<open>max = 2\<close> deletes the log of
  the second run, the newest one, and keeps the oldest, written before the change.
\<close>

lemma dst_fallback_prunes_newer:
  "log_names [''logs''] ''app'' (fsys (snd (rotating_new 2 [''logs''] ''app'' ex_dst_now ex_dst))) =
     [''app.2024-11-03T01:30:00'', ''app.2024-11-03T01:20:00'']"
  by (simp add: start_eval ex_dst_def ex_dst_now_name)

text \<open>
  C19. Name order is not time order past year 9999: under the hypotheses of C1, a log
  written in year 10000 or later is deleted whenever a log from a four-digit year is,
  although it is the newer of the two, because its name \<open>prefix.+10000-...\<close>
  sorts first.
\<close>

theorem year_10000_pruned_first:
  assumes wf: "wf_fs (fsys w)"
    and dir: "map_of (fsys w) dir = Some (Dir True True)"
    and mut: "\<forall>n \<in> set (log_names dir pfx (fsys w)). \<forall>c. map_of (fsys w) (dir @ [n]) \<noteq> Some (RegFile c True)"
    and fresh: "map_of (fsys w) (dir @ [log_file_name pfx now]) = None"
    and late: "log_file_name pfx t \<in> set (log_names dir pfx (fsys w))" "10000 \<le> dt_year t"
    and early: "log_file_name pfx t' \<in> set (log_names dir pfx (fsys w))" "0 \<le> dt_year t'" "dt_year t' < 10000"
    and gone: "log_file_name pfx t' \<notin> set (log_names dir pfx (fsys (snd (rotating_new m dir pfx now w))))"
  shows "log_file_name pfx t \<notin> set (log_names dir pfx (fsys (snd (rotating_new m dir pfx now w))))"
proof -
  let ?L = "log_names dir pfx (fsys w)"
  let ?old = "doomed (max 1 m) ?L"
  note after = rotating_new_clean(2) [OF wf dir mut fresh, of m]
  have ne: "log_file_name pfx x \<noteq> log_file_name pfx now" if "log_file_name pfx x \<in> set ?L" for x
    using that fresh wf by (auto simp: log_names_map_of)
  from gone early(1) ne [OF early(1)] have "log_file_name pfx t' \<in> set ?old"
    unfolding after by auto
  moreover have "log_file_name pfx t < log_file_name pfx t'"
    using late(2) early(2,3) by (rule log_file_name_year_10000_less)
  ultimately have "log_file_name pfx t \<in> set ?old"
    using doomed_oldest [OF distinct_log_names [OF wf]] late(1) by (meson DiffI less_asym)
  then show ?thesis unfolding after using ne [OF late(1)] by auto
qed

lemma year_10000_pruned_first_witness:
  "''app.+10000-01-01T00:00:00'' \<notin>
     set (log_names [''logs''] ''app'' (fsys (snd (rotating_new 1 [''logs''] ''app'' ex_y10k_now ex_y10k))))"
proof -
  have n1: "log_file_name ''app'' ex_y10k_old = ''app.+10000-01-01T00:00:00''"
    by (simp add: name_eval ex_y10k_old_def)
  have n2: "log_file_name ''app'' ex_y9999 = ''app.9999-12-31T23:59:59''"
    by (simp add: name_eval ex_y9999_def)
  have L: "log_names [''logs''] ''app'' (fsys ex_y10k) = [''app.9999-12-31T23:59:59'', ''app.+10000-01-01T00:00:00'']"
    by (simp add: ex_y10k_def log_names_def children_def log_filter_def)
  have wf: "wf_fs (fsys ex_y10k)" by (simp add: ex_y10k_def wf_fs_def is_dir_def)
  have dir: "map_of (fsys ex_y10k) [''logs''] = Some (Dir True True)" by (simp add: ex_y10k_def)
  have mut: "\<forall>n \<in> set (log_names [''logs''] ''app'' (fsys ex_y10k)).
      \<forall>c. map_of (fsys ex_y10k) ([''logs''] @ [n]) \<noteq> Some (RegFile c True)"
    unfolding L by (simp add: ex_y10k_def)
  have fresh: "map_of (fsys ex_y10k) ([''logs''] @ [log_file_name ''app'' ex_y10k_now]) = None"
    by (simp add: ex_y10k_def ex_y10k_now_name)
  have gone: "log_file_name ''app'' ex_y9999 \<notin>
      set (log_names [''logs''] ''app'' (fsys (snd (rotating_new 1 [''logs''] ''app'' ex_y10k_now ex_y10k))))"
    by (simp add: n2 start_eval ex_y10k_def ex_y10k_now_name)
  have late1: "log_file_name ''app'' ex_y10k_old \<in> set (log_names [''logs''] ''app'' (fsys ex_y10k))"
    by (simp add: n1 L)
  have late2: "10000 \<le> dt_year ex_y10k_old" by (simp add: ex_y10k_old_def)
  have early1: "log_file_name ''app'' ex_y9999 \<in> set (log_names [''logs''] ''app'' (fsys ex_y10k))"
    by (simp add: n2 L)
  have early2: "0 \<le> dt_year ex_y9999" "dt_year ex_y9999 < 10000" by (simp_all add: ex_y9999_def)
  from year_10000_pruned_first [OF wf dir mut fresh late1 late2 early1 early2 gone] show ?thesis
    by (simp add: n1)
qed
end
