(* ===== verification/Spec2Isabelle.thy ===== *)
theory Spec2Isabelle
  imports Retention Formatter Writer Restarts
begin

text \<open>
  \<^bold>\<open>Verification of tracing-utils.\<close>
  The crate has two parts that meet only through the log subsystem (tracing and
  tracing-subscriber): the event formatter \<open>SourceFormatter\<close>
  (src/src/format.rs), which the subsystem calls once per event to render a line
  into a \<open>fmt::Write\<close> buffer, and \<open>RotatingFileWriter\<close>
  (src/src/writer.rs), the \<open>io::Write\<close> destination that the subsystem then
  writes such lines to and whose constructor enforces the retention policy of the
  log directory.

  \<^bold>\<open>Theories.\<close>
  \<^item> \<open>Prelude\<close>: the outcome type \<open>Ok | Err | Panic\<close> standing for
    \<open>Result\<close> plus an unwinding panic, \<open>bind_out\<close> for \<open>?\<close>,
    \<open>nth_opt\<close> for \<open>slice::get\<close>, and lemmas on the lexicographic order of
    strings (Rust's \<open>Ord\<close> on \<open>OsStr\<close>).
  \<^item> \<open>Fs\<close>: the environment the writer runs in, a Linux file system as an
    association list from paths to nodes (regular files with an immutable flag,
    directories with read and write permission, symbolic links) with \<open>mkdir\<close>,
    \<open>create_dir_all\<close> (a \<open>function\<close> on the path length), \<open>read_dir\<close>,
    \<open>remove_file\<close> and \<open>File::create\<close> returning the \<open>io::ErrorKind\<close> Linux
    gives; \<open>wf_fs\<close> (every entry's parent is a directory) is preserved by all
    of them.
  \<^item> \<open>Decimal\<close>, \<open>Timestamp\<close>: Rust's \<open>{}\<close> and \<open>{:0w}\<close> on
    naturals, and chrono's \<open>%Y-%m-%dT%H:%M:%S\<close>; for years 0 to 9999 the
    rendering is injective and orders as the times do (\<open>format_ts_less\<close>).
  \<^item> \<open>BufWriter\<close>: \<open>std::io::BufWriter\<close> generic in its inner writer, an
    interface of a handle type \<open>'h\<close>, an environment \<open>'s\<close> and a fallible
    \<open>write\<close>: \<open>bw_write\<close> (fast path and \<open>write_cold\<close>), \<open>flush_buf\<close>
    whose retry loop \<open>flush_loop\<close> is a \<open>partial_function (option)\<close>, and
    \<open>bw_flush\<close>. Against any \<open>honest\<close> inner writer (it reports the leading
    bytes it took) each call keeps the stream, inner contents followed by buffer,
    equal to the accepted bytes and the buffer within capacity.
  \<^item> \<open>Retention\<close>: \<open>RotatingFileWriter::new\<close>, lines 15-53. The process
    state is the record \<open>world\<close> (file system and the \<open>warn!\<close> events
    emitted). \<open>fs_op\<close> is a fallible file-system call under \<open>?\<close>,
    \<open>scan_logs\<close> the WalkDir pipeline (lines 22-32, \<open>log_filter\<close> its
    \<open>filter_entry\<close>), \<open>prune\<close> the \<open>if\<close> of lines 34-44 with
    \<open>remove_logs\<close> its \<open>for\<close> loop (the \<open>expect\<close> an explicit panic
    branch) and \<open>remove_step\<close> one \<open>remove_file(..).inspect_err(warn!)\<close>,
    \<open>log_file_name\<close> the \<open>format!\<close> of line 50, \<open>rotating_new\<close> the whole
    constructor. The clock reading is an argument.
  \<^item> \<open>Writer\<close>: \<open>impl io::Write for RotatingFileWriter\<close>, lines 56-63:
    \<open>rw_write\<close> and \<open>rw_flush\<close> delegate to the \<open>BufWriter\<close> over the
    created file. The file is the environment \<open>file_env\<close>: its data and a script
    of the kernel's answers to the coming \<open>write(2)\<close> calls (short counts,
    \<open>Interrupted\<close>, errors; all bytes once the script is used up).
    \<open>write_all\<close> is \<open>io::Write\<close>'s provided method that the log subsystem
    calls, and \<open>rw_run\<close> the writer's life as an inductive relation over
    \<open>write\<close>, \<open>flush\<close> and changes of the script.
  \<^item> \<open>Restarts\<close>: successive process runs, each calling \<open>new\<close> once, as the
    inductive relation \<open>restarted\<close> over file-system states, from a good
    directory (\<open>good_dir\<close>) with a free name at every start.
  \<^item> \<open>Style\<close>: the console crate's \<open>StyledObject\<close> rendering (colour
    code, attribute codes, value, reset; the value alone when colours are off) and
    \<open>strip_ansi\<close>. Whether colours are on is \<open>colors_enabled()\<close>, an input.
  \<^item> \<open>Formatter\<close>: \<open>format_event\<close>, lines 19-73: \<open>header\<close> the
    \<open>message\<close> string (with \<open>level_color\<close> and \<open>source_tag\<close>),
    \<open>render_spans\<close> the span loop with the \<open>expect\<close> on the cached
    \<open>FormattedFields\<close> as a panic branch, every \<open>write!\<close> the sequence of
    \<open>write_str\<close> calls \<open>core::fmt::write\<close> makes, under \<open>?\<close>. The
    destination is any state with a fallible \<open>write_str\<close>; \<open>string_sink\<close>
    is the subsystem's \<open>String\<close> buffer and \<open>append_sink\<close> the class of
    destinations that append what they accept.

  \<^bold>\<open>What is proved.\<close>
  Retention (C1-C10, C12): on a readable and writable directory whose logs can be
  removed, construction keeps exactly \<open>min(n, max-1)+1\<close> qualifying files and
  deletes the lexicographically (for four-digit years, chronologically) oldest;
  it never touches other entries and never panics; \<open>max = 0\<close> acts as 1;
  every error path (directory creation, file creation, failed deletions) is a
  theorem, and on a directory that can be written but not listed nothing is
  pruned, so every old log stays beside the new one (C12).
  Formatter (C13-C18, C20): the exact layout of a line on the \<open>String\<close> buffer
  (a functional refinement of the spec's layout \<open>event_line\<close>), no panic when
  all span fields are cached, the precise panic otherwise, a truncated prefix and
  \<open>fmt::Error\<close> on a refusing destination, colours removable by
  \<open>strip_ansi\<close>, the newline structure, and the escape codes reaching any
  destination when standard output has colours. The spec's examples are evaluated
  as instances of the layout theorem.
  Writer (C21-C26): in every reachable state the file's data followed by the
  buffer is exactly the accepted bytes (an invariant by rule induction on
  \<open>rw_run\<close>), the buffer stays within 8 KiB, a successful flush puts all of
  them in the file, a failed one returns an error other than \<open>Interrupted\<close>
  and keeps the rest buffered, and \<open>write\<close>, \<open>flush\<close> and
  \<open>write_all\<close> always return; a short line stays in memory until a flush
  (C29), and from every state one flush on a cooperative kernel drains every
  accepted byte to the file (C30).
  Across the parts (C27, C28, this theory): the writer \<open>new\<close> returns
  starts such a run on the empty file it created, and a formatted line passed to
  \<open>write_all\<close> and flushed lands in the file after the earlier bytes. The
  timestamp of a file name parses back to the clock reading (C31, \<open>Timestamp\<close>).
  Restarts (C11, C19, C32, C33): after any number of starts the directory holds at
  most \<open>max\<close> qualifying files, and from every such state the next start with a
  free name succeeds on its own new file, which is among the logs kept. A start
  whose name is taken by a previous run's log (two starts in one second) truncates
  that log and gains no file (C11). Past year 9999 chrono writes \<open>+10000\<close>,
  which sorts before every digit, so a log from year 10000 is deleted whenever
  one from a four-digit year is, although it is newer (C19); a directory where the
  clock went back at the end of daylight saving time is evaluated to the same
  effect. Later additions: a failed \<open>write_all\<close> accepts a prefix of the line
  (C34); on a buffer of bounded capacity \<open>format_event\<close> succeeds exactly when
  the line fits (C35); the \<open>u32\<close> line number keeps the tag within 13 bytes of
  the file name (C36).

  \<^bold>\<open>Bounds.\<close>
  No fuel is used: \<open>create_dir_all\<close> terminates by the length of the path,
  \<open>strip_ansi\<close> by the length of the string; the loops of src/ are over
  finite lists and are structural recursions. The retry loops of std
  (\<open>flush_loop\<close>, \<open>write_all\<close>) may spin for ever on a writer that is
  interrupted for ever, so they are \<open>partial_function (option)\<close>; on the file
  they return (C25, C26) by induction on the script length plus the bytes left,
  which every iteration decreases. Line numbers are \<open>32 word\<close> as
  \<open>Metadata::line\<close> is \<open>u32\<close>; counts and indices are \<open>nat\<close> because
  \<open>usize\<close> arithmetic in \<open>new\<close> cannot overflow (\<open>extra_logs + 1 \<le> len\<close>).

  \<^bold>\<open>Not modelled.\<close>
  The log subsystem itself (subscriber wiring, span registry, field formatter:
  their outputs are inputs), terminal capability detection (the flag \<open>on\<close>),
  the system clock (an argument), concurrent processes sharing a directory, a
  file unlinked or made immutable while the writer holds it open (the file's data
  is tracked through the handle, not in \<open>Fs\<close>), and the \<open>Drop\<close> of the
  \<open>BufWriter\<close> at process exit, which the code never calls explicitly.
  Of src/ itself, only the lines that carry no behaviour are left out of the map:
  the \<open>use\<close> declarations, the unit struct \<open>SourceFormatter\<close> (format.rs
  line 12; \<open>format_event\<close> never reads \<open>self\<close>, so the model omits the
  argument), and the \<open>impl\<close> headers with their \<open>where\<close> clauses. The
  \<open>fs_err\<close> wrappers add the path to an error's message; only the error's
  kind, which the code and the tests act on, is modelled.
  \<open>fs_op\<close> is the \<open>?\<close> of line 16 and equally of line 51 (its map entry
  names the first). \<open>dir.join(prefix.time)\<close> is one path component: a
  prefix containing \<open>/\<close> (a subdirectory, or an absolute path that replaces
  \<open>dir\<close>) is not modelled, and the scan then never sees the file it
  creates.
\<close>

definition ex_empty_logs :: world where
  "ex_empty_logs = \<lparr>fsys = [([], Dir True True), ([''logs''], Dir True True)], warnings = []\<rparr>"

lemma rotating_new_Ok:
  assumes "rotating_new m dir pfx now w = (Ok wr, w')"
  shows "wr = \<lparr>sink = bufwriter_new (dir @ [log_file_name pfx now])\<rparr> \<and>
         map_of (fsys w') (dir @ [log_file_name pfx now]) = Some (RegFile [] False)"
  using assms
  by (auto simp: rotating_new_unfold fs_op_def Let_def update_conv' split: sum.splits dest!: file_create_Inr)

lemma ex_empty_logs_new:
  "fst (rotating_new 2 [''logs''] ''app'' ex_now ex_empty_logs) =
     Ok \<lparr>sink = bufwriter_new [''logs'', ''app.2024-01-04T00:00:00'']\<rparr>"
  by (simp add: rotating_new_def ex_empty_logs_def ex_now_name create_dir_all.simps mkdir_def is_dir_def
      fs_op_def scan_logs_def read_dir_def children_def log_filter_def prune_def remove_step_def
      remove_file_def file_create_def Let_def)

text \<open>
  C27. The writer \<open>new\<close> returns writes to the file it has just created, which is an
  empty regular file named \<open>prefix.timestamp\<close> in the directory; from there on its
  \<open>write\<close>/\<open>flush\<close> life starts, with nothing accepted yet, whatever the kernel will
  answer.
\<close>

theorem new_writer_starts_run:
  assumes "rotating_new m dir pfx now w = (Ok wr, w')"
  shows "bw_inner (sink wr) = dir @ [log_file_name pfx now] \<and>
         map_of (fsys w') (bw_inner (sink wr)) = Some (RegFile [] False) \<and>
         rw_run (wr, \<lparr>fe_data = [], fe_script = sc\<rparr>) []"
proof -
  let ?p = "dir @ [log_file_name pfx now]"
  from rotating_new_Ok [OF assms] have wr: "wr = \<lparr>sink = bufwriter_new ?p\<rparr>"
    and new: "map_of (fsys w') ?p = Some (RegFile [] False)" by auto
  have "rw_run (\<lparr>sink = bufwriter_new ?p\<rparr>, \<lparr>fe_data = [], fe_script = sc\<rparr>) []"
    by (rule rw_run.start) simp
  with wr new show ?thesis by (simp add: bufwriter_new_def)
qed

lemma new_writer_starts_run_witness:
  "bw_inner (sink \<lparr>sink = bufwriter_new [''logs'', ''app.2024-01-04T00:00:00'']\<rparr>) =
     [''logs''] @ [log_file_name ''app'' ex_now] \<and>
   rw_run (\<lparr>sink = bufwriter_new [''logs'', ''app.2024-01-04T00:00:00'']\<rparr>, \<lparr>fe_data = [], fe_script = []\<rparr>) []"
  using new_writer_starts_run [of 2 "[''logs'']" "''app''" ex_now ex_empty_logs
      "\<lparr>sink = bufwriter_new [''logs'', ''app.2024-01-04T00:00:00'']\<rparr>"
      "snd (rotating_new 2 [''logs''] ''app'' ex_now ex_empty_logs)" "[]"]
    ex_empty_logs_new
  by (metis prod.collapse)

text \<open>
  C28. The two parts composed: a line the formatter renders, handed by the log
  subsystem to the writer with \<open>write_all\<close> and followed by a \<open>flush\<close>, ends up
  in the log file right after everything accepted before, byte for byte, when the
  kernel takes every write.
\<close>

theorem event_reaches_log_file:
  assumes run: "rw_run (rw, e) acc" and sc0: "fe_script e = []" and fc: "fields_cached sc"
  shows "\<exists>rw1 e1 rw2 e2.
           write_all (bytes_of (snd (format_event string_sink on t ev sc []))) (rw, e) = Some (Ok (), rw1, e1) \<and>
           rw_flush (rw1, e1) = Some (Ok (), rw2, e2) \<and>
           fe_data e2 = acc @ bytes_of (event_line on t ev sc)"
proof -
  let ?b = "bytes_of (event_line on t ev sc)"
  have line: "snd (format_event string_sink on t ev sc []) = event_line on t ev sc"
    using format_event_string [OF fc] by simp
  from write_all_no_script [OF run sc0, of ?b] obtain rw1 e1 where
    wa: "write_all ?b (rw, e) = Some (Ok (), rw1, e1)" and run1: "rw_run (rw1, e1) (acc @ ?b)"
    and sc1: "fe_script e1 = []" by blast
  from rw_flush_no_script [OF sc1] obtain rw2 e2 where fl: "rw_flush (rw1, e1) = Some (Ok (), rw2, e2)"
    by blast
  from rw_run_inv [OF run1] have "bw_inv (sink rw1)" "fe_data e1 @ bw_buf (sink rw1) = acc @ ?b"
    by (simp_all add: rw_inv_def)
  with rw_flush_post [OF _ fl] have "fe_data e2 = acc @ ?b" by auto
  with wa fl line show ?thesis by auto
qed

lemma event_reaches_log_file_witness:
  "\<exists>rw1 e1 rw2 e2.
     write_all (bytes_of (snd (format_event string_sink False ex_time ex_event [] []))) (ex_writer, ex_env []) =
       Some (Ok (), rw1, e1) \<and>
     rw_flush (rw1, e1) = Some (Ok (), rw2, e2) \<and>
     fe_data e2 = bytes_of ''Wed, 12 Nov 1997 09:55:06 -0600 INFO [main.rs:74]: Hello World!\<newline>''"
  using event_reaches_log_file [OF ex_run_start, of "[]" "[]" False ex_time ex_event]
  by (simp add: ex_env_def event_line_def ex_event_def ex_time_def header_def source_tag_def
      dec_string.simps digit_char_def)


end
